theory Spec2Isabelle
  imports Main "HOL-Library.Word"
begin

unbundle bit_operations_syntax
section \<open>Access multiplexer (serialice.c)\<close>

subsection \<open>Data model\<close>

text \<open>
  The header \<^verbatim>\<open>serialice.h\<close> is not part of the sources at hand. What the
  multiplexer needs from it is taken as a parameter:
  \<^item> the four routing bits \<^verbatim>\<open>READ_FROM_QEMU\<close>, \<^verbatim>\<open>READ_FROM_SERIALICE\<close>,
    \<^verbatim>\<open>WRITE_TO_QEMU\<close>, \<^verbatim>\<open>WRITE_TO_SERIALICE\<close> (a record of \<^verbatim>\<open>int\<close> constants);
  \<^item> the tables of function pointers \<^verbatim>\<open>SerialICE_filter\<close> and
    \<^verbatim>\<open>SerialICE_target\<close> (records of functions on the state of the world);
  \<^item> the emulator's primitives \<^verbatim>\<open>cpu_rdmsr\<close>, \<^verbatim>\<open>cpu_wrmsr\<close>, \<^verbatim>\<open>cpu_cpuid\<close>,
    \<^verbatim>\<open>cpu_io_read_wrapper\<close>, \<^verbatim>\<open>cpu_io_write_wrapper\<close>.
  The structure \<^verbatim>\<open>cpuid_regs_t\<close> has the four 32-bit fields that
  \<^verbatim>\<open>serialice_cpuid\<close> clears.
  A C \<^verbatim>\<open>int\<close> or \<^verbatim>\<open>unsigned int\<close> is a \<open>32 word\<close>, \<^verbatim>\<open>uint16_t\<close> a
  \<open>16 word\<close>, \<^verbatim>\<open>uint64_t\<close> a \<open>64 word\<close>. An argument passed by reference
  is passed in and returned.
\<close>

record routing_bits =
  READ_FROM_QEMU :: "32 word"
  READ_FROM_SERIALICE :: "32 word"
  WRITE_TO_QEMU :: "32 word"
  WRITE_TO_SERIALICE :: "32 word"

record cpuid_regs_t =
  eax :: "32 word"
  ebx :: "32 word"
  ecx :: "32 word"
  edx :: "32 word"

text \<open>
  A call through a function pointer reads and changes the world \<open>'w\<close> and returns.
  The multiplexer handles no error of its own; a callee that ends the process ends the
  access with it, and nothing is said about such an access.
\<close>

type_synonym ('a, 'w) act = "'w \<Rightarrow> 'a \<times> 'w"

record 'w SerialICE_filter =
  io_read_pre :: "16 word \<Rightarrow> 32 word \<Rightarrow> (32 word, 'w) act"
  io_read_post :: "64 word \<Rightarrow> (64 word, 'w) act"
  io_write_pre :: "64 word \<Rightarrow> 16 word \<Rightarrow> 32 word \<Rightarrow> (32 word \<times> 64 word, 'w) act"
  io_write_post :: "(unit, 'w) act"
  load_pre :: "32 word \<Rightarrow> 32 word \<Rightarrow> (32 word, 'w) act"
  load_post :: "64 word \<Rightarrow> (64 word, 'w) act"
  store_pre :: "32 word \<Rightarrow> 32 word \<Rightarrow> 64 word \<Rightarrow> (32 word \<times> 64 word, 'w) act"
  store_post :: "(unit, 'w) act"
  rdmsr_pre :: "32 word \<Rightarrow> (32 word, 'w) act"
  rdmsr_post :: "32 word \<times> 32 word \<Rightarrow> (32 word \<times> 32 word, 'w) act"
  wrmsr_pre :: "32 word \<Rightarrow> 32 word \<times> 32 word \<Rightarrow> (32 word \<times> 32 word \<times> 32 word, 'w) act"
  wrmsr_post :: "(unit, 'w) act"
  cpuid_pre :: "32 word \<Rightarrow> 32 word \<Rightarrow> (32 word, 'w) act"
  cpuid_post :: "cpuid_regs_t \<Rightarrow> (cpuid_regs_t, 'w) act"

record 'w SerialICE_target =
  version :: "(unit, 'w) act"
  mainboard :: "(unit, 'w) act"
  io_read :: "16 word \<Rightarrow> 32 word \<Rightarrow> (64 word, 'w) act"
  io_write :: "16 word \<Rightarrow> 32 word \<Rightarrow> 64 word \<Rightarrow> (unit, 'w) act"
  load :: "32 word \<Rightarrow> 32 word \<Rightarrow> (64 word, 'w) act"
  store :: "32 word \<Rightarrow> 32 word \<Rightarrow> 64 word \<Rightarrow> (unit, 'w) act"
  rdmsr :: "32 word \<Rightarrow> 32 word \<Rightarrow> 32 word \<times> 32 word \<Rightarrow> (32 word \<times> 32 word, 'w) act"
  wrmsr :: "32 word \<Rightarrow> 32 word \<Rightarrow> 32 word \<Rightarrow> 32 word \<Rightarrow> (unit, 'w) act"
  cpuid :: "32 word \<Rightarrow> 32 word \<Rightarrow> cpuid_regs_t \<Rightarrow> (cpuid_regs_t, 'w) act"

record ('e, 'w) emulated_cpu =
  cpu_rdmsr :: "'e \<Rightarrow> 32 word \<Rightarrow> (64 word, 'w) act"
  cpu_wrmsr :: "'e \<Rightarrow> 32 word \<Rightarrow> 64 word \<Rightarrow> (unit, 'w) act"
  cpu_cpuid :: "'e \<Rightarrow> 32 word \<Rightarrow> 32 word \<Rightarrow> (cpuid_regs_t, 'w) act"
  cpu_io_read_wrapper :: "16 word \<Rightarrow> 32 word \<Rightarrow> (64 word, 'w) act"
  cpu_io_write_wrapper :: "16 word \<Rightarrow> 32 word \<Rightarrow> 64 word \<Rightarrow> (unit, 'w) act"

text \<open>
  To speak of which functions an access invokes, every call through a function pointer
  and every call of an emulator primitive is recorded in a history that the callees
  cannot touch: a pre hook of the filter, a post hook of the filter, a function of the
  target table, or a primitive of the emulated CPU.
\<close>

datatype call = Filter_pre | Filter_post | Target | Emulated_cpu

record 'w mux_state =
  world :: 'w
  calls :: "call list"

definition invoke :: "call \<Rightarrow> ('a, 'w) act \<Rightarrow> ('a, 'w mux_state) act" where
  "invoke c f s = (let (r, w) = f (world s) in (r, \<lparr>world = w, calls = calls s @ [c]\<rparr>))"

text \<open>C's \<^verbatim>\<open>!\<close> on an \<^verbatim>\<open>int\<close>.\<close>

definition lnot :: "32 word \<Rightarrow> 32 word" where
  "lnot x = (if x = 0 then 1 else 0)"

subsection \<open>Model-specific registers and CPUID\<close>

definition serialice_rdmsr ::
  "routing_bits \<Rightarrow> 'w SerialICE_filter \<Rightarrow> 'w SerialICE_target \<Rightarrow> ('e, 'w) emulated_cpu \<Rightarrow>
   'e \<Rightarrow> 32 word \<Rightarrow> 32 word \<Rightarrow> (64 word, 'w mux_state) act" where
  "serialice_rdmsr k s_filter s_target cpu env addr key s0 =
    (let hi = 0; lo = 0;
         (mux, s1) = invoke Filter_pre (rdmsr_pre s_filter addr) s0;
         ((hi, lo), s2) =
           (if mux AND READ_FROM_SERIALICE k \<noteq> 0
            then invoke Target (rdmsr s_target addr key (hi, lo)) s1
            else ((hi, lo), s1));
         ((hi, lo), s3) =
           (if mux AND READ_FROM_QEMU k \<noteq> 0
            then (let (data, s) = invoke Emulated_cpu (cpu_rdmsr cpu env addr) s2
                  in ((ucast (drop_bit 32 data), ucast (data AND 0xffffffff)), s))
            else ((hi, lo), s2));
         ((hi, lo), s4) = invoke Filter_post (rdmsr_post s_filter (hi, lo)) s3;
         data = ucast hi;
         data = push_bit 32 data;
         data = data OR ucast lo
     in (data, s4))"

definition serialice_wrmsr ::
  "routing_bits \<Rightarrow> 'w SerialICE_filter \<Rightarrow> 'w SerialICE_target \<Rightarrow> ('e, 'w) emulated_cpu \<Rightarrow>
   'e \<Rightarrow> 64 word \<Rightarrow> 32 word \<Rightarrow> 32 word \<Rightarrow> (unit, 'w mux_state) act" where
  "serialice_wrmsr k s_filter s_target cpu env data addr key s0 =
    (let hi = ucast (drop_bit 32 data);
         lo = ucast (data AND 0xffffffff);
         ((mux, hi, lo), s1) =
           invoke Filter_pre (wrmsr_pre s_filter addr (hi, lo)) s0;
         (u, s2) =
           (if mux AND WRITE_TO_SERIALICE k \<noteq> 0
            then invoke Target (wrmsr s_target addr key hi lo) s1
            else ((), s1));
         (u, s3) =
           (if mux AND WRITE_TO_QEMU k \<noteq> 0
            then (let data = ucast lo OR push_bit 32 (ucast hi)
                  in invoke Emulated_cpu (cpu_wrmsr cpu env addr data) s2)
            else ((), s2))
     in invoke Filter_post (wrmsr_post s_filter) s3)"

definition serialice_cpuid ::
  "routing_bits \<Rightarrow> 'w SerialICE_filter \<Rightarrow> 'w SerialICE_target \<Rightarrow> ('e, 'w) emulated_cpu \<Rightarrow>
   'e \<Rightarrow> 32 word \<Rightarrow> 32 word \<Rightarrow> (cpuid_regs_t, 'w mux_state) act" where
  "serialice_cpuid k s_filter s_target cpu env eax_in ecx_in s0 =
    (let ret = \<lparr>eax = 0, ebx = 0, ecx = 0, edx = 0\<rparr>;
         (mux, s1) = invoke Filter_pre (cpuid_pre s_filter eax_in ecx_in) s0;
         (ret, s2) =
           (if mux AND READ_FROM_SERIALICE k \<noteq> 0
            then invoke Target (cpuid s_target eax_in ecx_in ret) s1
            else (ret, s1));
         (ret, s3) =
           (if mux AND READ_FROM_QEMU k \<noteq> 0
            then invoke Emulated_cpu (cpu_cpuid cpu env eax_in ecx_in) s2
            else (ret, s2))
     in invoke Filter_post (cpuid_post s_filter ret) s3)"

subsection \<open>Memory loads and stores\<close>

text \<open>
  \<^verbatim>\<open>serialice_handle_load\<close> returns 0 to pass the access on to the emulator's own
  memory path and 1 when it was handled here; \<^verbatim>\<open>*data\<close> is passed in and returned.
\<close>

definition serialice_handle_load ::
  "routing_bits \<Rightarrow> 'w SerialICE_filter \<Rightarrow> 'w SerialICE_target \<Rightarrow>
   32 word \<Rightarrow> 64 word \<Rightarrow> 32 word \<Rightarrow> (32 word \<times> 64 word, 'w mux_state) act" where
  "serialice_handle_load k s_filter s_target addr data sz s0 =
    (let (mux, s1) = invoke Filter_pre (load_pre s_filter addr sz) s0;
         (data, s2) =
           (if mux AND READ_FROM_SERIALICE k \<noteq> 0
            then invoke Target (load s_target addr sz) s1
            else (data, s1));
         (data, s3) =
           (if lnot (mux AND READ_FROM_QEMU k) \<noteq> 0
            then invoke Filter_post (load_post s_filter data) s2
            else (data, s2))
     in ((lnot (mux AND READ_FROM_QEMU k), data), s3))"

definition serialice_handle_store ::
  "routing_bits \<Rightarrow> 'w SerialICE_filter \<Rightarrow> 'w SerialICE_target \<Rightarrow>
   32 word \<Rightarrow> 64 word \<Rightarrow> 32 word \<Rightarrow> (32 word, 'w mux_state) act" where
  "serialice_handle_store k s_filter s_target addr data sz s0 =
    (let ((mux, data), s1) =
           invoke Filter_pre (store_pre s_filter addr sz data) s0;
         (u, s2) =
           (if mux AND WRITE_TO_SERIALICE k \<noteq> 0
            then invoke Target (store s_target addr sz data) s1
            else ((), s1));
         (u, s3) = invoke Filter_post (store_post s_filter) s2
     in (lnot (mux AND WRITE_TO_QEMU k), s3))"

subsection \<open>Port I/O\<close>

text \<open>
  \<^verbatim>\<open>#define mask_data(val,bytes) (val & (((uint64_t)1<<(bytes*8))-1))\<close>:
  \<^verbatim>\<open>bytes*8\<close> is computed in \<^verbatim>\<open>unsigned int\<close> and wraps; shifting a 64-bit
  value by 64 or more is undefined in C, which is the result \<open>None\<close>.
\<close>

definition mask_data :: "64 word \<Rightarrow> 32 word \<Rightarrow> 64 word option" where
  "mask_data val bytes =
    (if unat (bytes * 8) < 64 then Some (val AND (push_bit (unat (bytes * 8)) 1 - 1))
     else None)"

definition serialice_io_read ::
  "routing_bits \<Rightarrow> 'w SerialICE_filter \<Rightarrow> 'w SerialICE_target \<Rightarrow> ('e, 'w) emulated_cpu \<Rightarrow>
   16 word \<Rightarrow> 32 word \<Rightarrow> (64 word option, 'w mux_state) act" where
  "serialice_io_read k s_filter s_target cpu port sz s0 =
    (let data = 0;
         (mux, s1) = invoke Filter_pre (io_read_pre s_filter port sz) s0;
         (data, s2) =
           (if mux AND READ_FROM_QEMU k \<noteq> 0
            then invoke Emulated_cpu (cpu_io_read_wrapper cpu port sz) s1
            else (data, s1));
         (data, s3) =
           (if mux AND READ_FROM_SERIALICE k \<noteq> 0
            then invoke Target (io_read s_target port sz) s2
            else (data, s2))
     in case mask_data data sz of
          None \<Rightarrow> (None, s3)
        | Some data \<Rightarrow>
            (let (data, s4) = invoke Filter_post (io_read_post s_filter data) s3
             in (Some data, s4)))"

definition serialice_io_write ::
  "routing_bits \<Rightarrow> 'w SerialICE_filter \<Rightarrow> 'w SerialICE_target \<Rightarrow> ('e, 'w) emulated_cpu \<Rightarrow>
   16 word \<Rightarrow> 32 word \<Rightarrow> 64 word \<Rightarrow> (unit option, 'w mux_state) act" where
  "serialice_io_write k s_filter s_target cpu port sz data s0 =
    (case mask_data data sz of
       None \<Rightarrow> (None, s0)
     | Some data \<Rightarrow>
        (let ((mux, data), s1) =
               invoke Filter_pre (io_write_pre s_filter data port sz) s0
         in case mask_data data sz of
              None \<Rightarrow> (None, s1)
            | Some data \<Rightarrow>
               (let (u, s2) =
                      (if mux AND WRITE_TO_QEMU k \<noteq> 0
                       then invoke Emulated_cpu
                              (cpu_io_write_wrapper cpu port sz data) s1
                       else ((), s1));
                    (u, s3) =
                      (if mux AND WRITE_TO_SERIALICE k \<noteq> 0
                       then invoke Target
                              (io_write s_target port sz data) s2
                       else ((), s2));
                    (u, s4) = invoke Filter_post (io_write_post s_filter) s3
                in (Some (), s4))))"


section \<open>Serial link and command codec (serialice-com.c)\<close>

subsection \<open>The line\<close>

text \<open>
  The model follows the POSIX branch of the file. The descriptor is opened with
  \<^verbatim>\<open>VMIN = 0\<close> and \<^verbatim>\<open>VTIME = 100\<close>: a \<^verbatim>\<open>read\<close> returns the bytes that
  arrived, 0 after ten silent seconds, or -1 with \<^verbatim>\<open>errno\<close> set. What the line
  delivers is a script, one entry per burst of bytes or failure; when the script is used
  up the line stays silent and every further \<^verbatim>\<open>read\<close> returns 0.
  \<^verbatim>\<open>EIO\<close> stands for every \<^verbatim>\<open>errno\<close> other than \<^verbatim>\<open>EINTR\<close>.
\<close>

datatype errno = EINTR | EIO

datatype rd = Data "char list" | Fail errno

datatype ret = Ret "char list" | Err errno

fun sys_read :: "nat \<Rightarrow> rd list \<Rightarrow> ret \<times> rd list" where
  "sys_read count [] = (Ret [], [])"
| "sys_read count (Fail e # fd) = (Err e, fd)"
| "sys_read count (Data bs # fd) =
     (Ret (take count bs), if drop count bs = [] then fd else Data (drop count bs) # fd)"

text \<open>
  The structure \<^verbatim>\<open>SerialICEState\<close> with the file's global variables: the input and
  the output side of \<^verbatim>\<open>fd\<close>, the two scratch buffers of \<^verbatim>\<open>BUFFER_SIZE\<close> bytes
  (\<open>command\<close> holds the C string without its terminator), \<^verbatim>\<open>handshake_mode\<close>, what
  was printed, and the indeterminate bytes that the local array \<^verbatim>\<open>char buf[3]\<close> of
  \<^verbatim>\<open>serialice_wait_prompt\<close> holds before it is written.
\<close>

datatype msg =
    Perror string
  | Readback_error char char
  | Not_answered int int string
  | Unknown_read_access_size "32 word" "32 word"

record SerialICEState =
  fd_in :: "rd list"
  fd_out :: "char list"
  buffer :: "char list"
  command :: "char list"
  handshake_mode :: bool
  printed :: "msg list"
  stack :: "char \<times> char \<times> char"

definition BUFFER_SIZE :: nat where
  "BUFFER_SIZE = 1024"

text \<open>A function either returns a value or calls \<^verbatim>\<open>exit\<close>; \<open>None\<close> is a call that never returns.\<close>

datatype 'a outcome = Returns 'a SerialICEState | Exits int SerialICEState

definition and_then ::
  "'a outcome option \<Rightarrow> ('a \<Rightarrow> SerialICEState \<Rightarrow> 'b outcome option) \<Rightarrow> 'b outcome option" where
  "and_then m f =
    (case m of None \<Rightarrow> None
     | Some (Exits n st) \<Rightarrow> Some (Exits n st)
     | Some (Returns v st) \<Rightarrow> f v st)"

text \<open>Writing the bytes \<open>bs\<close> into an array from offset \<open>off\<close> on.\<close>

definition store_at :: "char list \<Rightarrow> nat \<Rightarrow> char list \<Rightarrow> char list" where
  "store_at buf off bs = take off buf @ bs @ drop (off + length bs) buf"

definition memset :: "char list \<Rightarrow> char \<Rightarrow> nat \<Rightarrow> char list" where
  "memset buf c n = replicate n c @ drop n buf"

text \<open>\<^verbatim>\<open>memmove(buf, buf + 1, n)\<close>.\<close>

definition memmove_down :: "char list \<Rightarrow> nat \<Rightarrow> char list" where
  "memmove_down buf n = take n (drop 1 buf) @ drop n buf"

text \<open>The C string that starts at a pointer: the bytes before the first NUL.\<close>

definition cstring :: "char list \<Rightarrow> string" where
  "cstring p = takeWhile (\<lambda>c. c \<noteq> CHR 0x00) p"

subsection \<open>Low level communication\<close>

text \<open>
  \<^verbatim>\<open>serialice_read\<close>: the loop ends when \<^verbatim>\<open>nbyte\<close> bytes are there or when a
  \<^verbatim>\<open>read\<close> fails with an \<^verbatim>\<open>errno\<close> other than \<^verbatim>\<open>EINTR\<close>; in both cases it
  returns \<^verbatim>\<open>bytes_read\<close>. The model returns the bytes stored through \<^verbatim>\<open>buf\<close>,
  whose number is \<^verbatim>\<open>bytes_read\<close>.
\<close>

partial_function (option) serialice_read_loop ::
  "nat \<Rightarrow> char list \<Rightarrow> rd list \<Rightarrow> (char list \<times> rd list) option" where
  "serialice_read_loop nbyte got fd =
    (case sys_read (nbyte - length got) fd of
       (Err e, fd') \<Rightarrow>
         (if e = EINTR then serialice_read_loop nbyte got fd' else Some (got, fd'))
     | (Ret bs, fd') \<Rightarrow>
         (if int (length (got @ bs)) \<ge> int nbyte then Some (got @ bs, fd')
          else serialice_read_loop nbyte (got @ bs) fd'))"

definition serialice_read :: "SerialICEState \<Rightarrow> nat \<Rightarrow> (char list \<times> SerialICEState) option" where
  "serialice_read state nbyte =
    (case serialice_read_loop nbyte [] (fd_in state) of
       None \<Rightarrow> None
     | Some (got, fd') \<Rightarrow> Some (got, state\<lparr>fd_in := fd'\<rparr>))"

text \<open>
  \<^verbatim>\<open>serialice_write\<close> sends one byte at a time and waits for its echo:
  \<^verbatim>\<open>while (read(state->fd, &c, 1) != 1) ;\<close>. A \<^verbatim>\<open>write\<close> of one byte is taken to
  succeed at once.
\<close>

partial_function (option) read_echo :: "rd list \<Rightarrow> (char \<times> rd list) option" where
  "read_echo fd =
    (case sys_read 1 fd of
       (Err e, fd') \<Rightarrow> read_echo fd'
     | (Ret bs, fd') \<Rightarrow> (if length bs = 1 then Some (hd bs, fd') else read_echo fd'))"

fun serialice_write :: "SerialICEState \<Rightarrow> char list \<Rightarrow> SerialICEState option" where
  "serialice_write state [] = Some state"
| "serialice_write state (b # buf) =
    (let state = state\<lparr>fd_out := fd_out state @ [b]\<rparr>
     in case read_echo (fd_in state) of
          None \<Rightarrow> None
        | Some (c, fd') \<Rightarrow>
            (let state = state\<lparr>fd_in := fd'\<rparr>;
                 state = (if c \<noteq> b \<and> \<not> handshake_mode state
                          then state\<lparr>printed := printed state @ [Readback_error c b]\<rparr>
                          else state)
             in serialice_write state buf))"

definition could_not_read :: "SerialICEState \<Rightarrow> 'a outcome option" where
  "could_not_read state =
    Some (Exits 1 (state\<lparr>printed := printed state
       @ [Perror ''SerialICE: Could not read from target'']\<rparr>))"

partial_function (option) wait_prompt_loop ::
  "char list \<Rightarrow> SerialICEState \<Rightarrow> int outcome option" where
  "wait_prompt_loop buf state =
    (if buf ! 0 \<noteq> CHR 0x0A \<or> buf ! 1 \<noteq> CHR ''>'' \<or> buf ! 2 \<noteq> CHR '' ''
     then (let buf = buf[0 := buf ! 1];
               buf = buf[1 := buf ! 2]
           in case serialice_read state 1 of
                None \<Rightarrow> None
              | Some (got, state) \<Rightarrow>
                  (let buf = store_at buf 2 got;
                       l = int (length got)
                   in if l = - 1 then could_not_read state
                      else wait_prompt_loop buf state))
     else Some (Returns 0 state))"

definition serialice_wait_prompt :: "SerialICEState \<Rightarrow> int outcome option" where
  "serialice_wait_prompt state =
    (let buf = (case stack state of (a, b, c) \<Rightarrow> [a, b, c])
     in case serialice_read state 3 of
          None \<Rightarrow> None
        | Some (got, state) \<Rightarrow>
            (let buf = store_at buf 0 got;
                 l = int (length got)
             in if l = - 1 then could_not_read state
                else wait_prompt_loop buf state))"

text \<open>
  \<^verbatim>\<open>serialice_command\<close>: wait for the prompt, send the command, clear
  \<^verbatim>\<open>reply_len + 1\<close> bytes of the buffer and read \<^verbatim>\<open>reply_len\<close> bytes into it.
\<close>

definition serialice_command :: "string \<Rightarrow> nat \<Rightarrow> SerialICEState \<Rightarrow> unit outcome option" where
  "serialice_command cmd reply_len state =
    and_then (serialice_wait_prompt state) (\<lambda>_ state.
      case serialice_write state cmd of
        None \<Rightarrow> None
      | Some state \<Rightarrow>
         (let state = state\<lparr>buffer := memset (buffer state) (CHR 0x00) (reply_len + 1)\<rparr>
          in case serialice_read state reply_len of
               None \<Rightarrow> None
             | Some (got, state) \<Rightarrow>
                (let state = state\<lparr>buffer := store_at (buffer state) 0 got\<rparr>;
                     l = int (length got)
                 in if l = - 1 then could_not_read state
                    else
                     (case (if buffer state ! 0 = CHR 0x0D
                            then (let state = state\<lparr>buffer := memmove_down (buffer state) reply_len\<rparr>
                                  in case serialice_read state 1 of
                                       None \<Rightarrow> None
                                     | Some (got, state) \<Rightarrow>
                                         Some (state\<lparr>buffer :=
                                           store_at (buffer state) (reply_len - 1) got\<rparr>))
                            else Some state) of
                        None \<Rightarrow> None
                      | Some state \<Rightarrow>
                          if l \<noteq> int reply_len
                          then Some (Exits 1 (state\<lparr>printed := printed state
                                 @ [Not_answered l (int reply_len) (cstring (buffer state))]\<rparr>))
                          else Some (Returns () state)))))"


subsection \<open>Numbers on the wire\<close>

text \<open>
  \<^verbatim>\<open>printf\<close> with the conversion \<^verbatim>\<open>%0Nx\<close>: the lowercase hexadecimal digits of
  the number, padded with zeros on the left to at least \<open>N\<close> digits.
\<close>

definition hex_digit :: "nat \<Rightarrow> char" where
  "hex_digit d = ''0123456789abcdef'' ! d"

fun hex_digits :: "nat \<Rightarrow> string" where
  "hex_digits n =
    (if n < 16 then [hex_digit n] else hex_digits (n div 16) @ [hex_digit (n mod 16)])"

declare hex_digits.simps [simp del]

definition printf_0x :: "nat \<Rightarrow> nat \<Rightarrow> string" where
  "printf_0x width n = replicate (width - length (hex_digits n)) (CHR ''0'') @ hex_digits n"

text \<open>
  \<^verbatim>\<open>strtoul(p, NULL, 16)\<close> of the C library, with a 64-bit \<^verbatim>\<open>unsigned long\<close>:
  white space is skipped, a sign and a prefix \<^verbatim>\<open>0x\<close> are accepted, the digits are
  read up to the first character that is none, a value out of range gives
  \<^verbatim>\<open>ULONG_MAX\<close>, and a minus sign negates the value in the unsigned type.
\<close>

definition isspace :: "char \<Rightarrow> bool" where
  "isspace c = (c \<in> set [CHR '' '', CHR 0x09, CHR 0x0A, CHR 0x0B, CHR 0x0C, CHR 0x0D])"

definition digit_val :: "char \<Rightarrow> nat option" where
  "digit_val c =
    (let n = (of_char c :: nat)
     in if 48 \<le> n \<and> n \<le> 57 then Some (n - 48)
        else if 97 \<le> n \<and> n \<le> 102 then Some (n - 87)
        else if 65 \<le> n \<and> n \<le> 70 then Some (n - 55)
        else None)"

fun strtoul_digits :: "nat \<Rightarrow> string \<Rightarrow> nat" where
  "strtoul_digits acc [] = acc"
| "strtoul_digits acc (c # cs) =
    (case digit_val c of None \<Rightarrow> acc | Some d \<Rightarrow> strtoul_digits (acc * 16 + d) cs)"

definition strtoul :: "string \<Rightarrow> 64 word" where
  "strtoul p =
    (let s1 = dropWhile isspace p;
         (neg, s2) = (case s1 of
                        [] \<Rightarrow> (False, s1)
                      | c # r \<Rightarrow> if c = CHR ''-'' then (True, r)
                                 else if c = CHR ''+'' then (False, r) else (False, s1));
         s3 = (case s2 of
                 a # b # d # r \<Rightarrow>
                   if a = CHR ''0'' \<and> (b = CHR ''x'' \<or> b = CHR ''X'') \<and> digit_val d \<noteq> None
                   then d # r else s2
               | _ \<Rightarrow> s2);
         n = strtoul_digits 0 s3
     in if n > 2 ^ 64 - 1 then - 1
        else if neg then - of_nat n else of_nat n)"

subsection \<open>High level communication\<close>

text \<open>
  The value of \<^verbatim>\<open>strtoul(s->buffer + 1, (char **)NULL, 16)\<close>, and the warning of the
  default branches.
\<close>

definition reply_value :: "SerialICEState \<Rightarrow> 64 word" where
  "reply_value state = strtoul (cstring (drop 1 (buffer state)))"

definition msg_io_read :: "16 word \<Rightarrow> 32 word \<Rightarrow> SerialICEState \<Rightarrow> 64 word outcome option" where
  "msg_io_read port sz state =
    (if sz = 1 then
       (let state = state\<lparr>command := ''*ri'' @ printf_0x 4 (unat port) @ ''.b''\<rparr>
        in and_then (serialice_command (command state) 3 state) (\<lambda>_ state.
             Some (Returns (ucast (ucast (reply_value state) :: 8 word)) state)))
     else if sz = 2 then
       (let state = state\<lparr>command := ''*ri'' @ printf_0x 4 (unat port) @ ''.w''\<rparr>
        in and_then (serialice_command (command state) 5 state) (\<lambda>_ state.
             Some (Returns (ucast (ucast (reply_value state) :: 16 word)) state)))
     else if sz = 4 then
       (let state = state\<lparr>command := ''*ri'' @ printf_0x 4 (unat port) @ ''.l''\<rparr>
        in and_then (serialice_command (command state) 9 state) (\<lambda>_ state.
             Some (Returns (reply_value state) state)))
     else Some (Returns (- 1)
            (state\<lparr>printed := printed state @ [Unknown_read_access_size sz (ucast port)]\<rparr>)))"

definition msg_load :: "32 word \<Rightarrow> 32 word \<Rightarrow> SerialICEState \<Rightarrow> 64 word outcome option" where
  "msg_load addr sz state =
    (if sz = 1 then
       (let state = state\<lparr>command := ''*rm'' @ printf_0x 8 (unat addr) @ ''.b''\<rparr>
        in and_then (serialice_command (command state) 3 state) (\<lambda>_ state.
             Some (Returns (ucast (ucast (reply_value state) :: 8 word)) state)))
     else if sz = 2 then
       (let state = state\<lparr>command := ''*rm'' @ printf_0x 8 (unat addr) @ ''.w''\<rparr>
        in and_then (serialice_command (command state) 5 state) (\<lambda>_ state.
             Some (Returns (ucast (ucast (reply_value state) :: 16 word)) state)))
     else if sz = 4 then
       (let state = state\<lparr>command := ''*rm'' @ printf_0x 8 (unat addr) @ ''.l''\<rparr>
        in and_then (serialice_command (command state) 9 state) (\<lambda>_ state.
             Some (Returns (ucast (ucast (reply_value state) :: 32 word)) state)))
     else if sz = 8 then
       (let state = state\<lparr>command := ''*rm'' @ printf_0x 8 (unat addr) @ ''.q''\<rparr>
        in and_then (serialice_command (command state) 17 state) (\<lambda>_ state.
             Some (Returns (reply_value state) state)))
     else Some (Returns 0
            (state\<lparr>printed := printed state @ [Unknown_read_access_size sz addr]\<rparr>)))"

subsection \<open>The target's side of the protocol\<close>

text \<open>
  Modelled from the spec: the firmware of the target is not part of the sources. Its
  reply to a read of width \<open>w\<close> bytes with the value \<open>v\<close> is a newline followed by
  \<open>2 * w\<close> lowercase, zero-padded hexadecimal digits; it echoes every byte it
  receives and announces that it is ready with the prompt.
\<close>

definition reply_for :: "nat \<Rightarrow> nat \<Rightarrow> string" where
  "reply_for w v = CHR 0x0A # printf_0x (2 * w) (v mod 2 ^ (8 * w))"

definition prompt :: string where
  "prompt = [CHR 0x0A, CHR ''>'', CHR '' '']"

text \<open>
  The bytes a script delivers, and the scripts in which no \<^verbatim>\<open>read\<close> fails with
  an \<^verbatim>\<open>errno\<close> other than \<^verbatim>\<open>EINTR\<close>.
\<close>

fun delivers :: "rd list \<Rightarrow> char list" where
  "delivers [] = []"
| "delivers (Data bs # fd) = bs @ delivers fd"
| "delivers (Fail e # fd) = delivers fd"

fun no_hard_error :: "rd list \<Rightarrow> bool" where
  "no_hard_error [] = True"
| "no_hard_error (Data bs # fd) = no_hard_error fd"
| "no_hard_error (Fail e # fd) = (e = EINTR \<and> no_hard_error fd)"

text \<open>A state to start from: cleared buffers of \<^verbatim>\<open>BUFFER_SIZE\<close> bytes, nothing sent.\<close>

definition initial_state :: "rd list \<Rightarrow> char \<times> char \<times> char \<Rightarrow> SerialICEState" where
  "initial_state script junk =
    \<lparr>fd_in = script, fd_out = [], buffer = replicate BUFFER_SIZE (CHR 0x00),
     command = [], handshake_mode = False, printed = [], stack = junk\<rparr>"


text \<open>The last three bytes of \<open>xs\<close> are the prompt.\<close>

definition ends_with_prompt :: "char list \<Rightarrow> bool" where
  "ends_with_prompt xs = (3 \<le> length xs \<and> drop (length xs - 3) xs = prompt)"

text \<open>The lowercase hexadecimal digits.\<close>

definition hexchar :: "char \<Rightarrow> bool" where
  "hexchar c = (\<exists>d<16. c = hex_digit d)"

declare serialice_read_loop.simps [code]
declare read_echo.simps [code]
declare wait_prompt_loop.simps [code]

text \<open>The letter that names the width of an access in a command.\<close>

definition width_letter :: "nat \<Rightarrow> char" where
  "width_letter w =
    (if w = 1 then CHR ''b'' else if w = 2 then CHR ''w'' else if w = 4 then CHR ''l''
     else CHR ''q'')"


subsection \<open>Example instances\<close>

text \<open>
  Concrete routing bits, a filter that answers every pre hook with the mask \<open>m\<close> and
  passes the data through \<open>g\<close>, a target and an emulated CPU that read the value \<open>v\<close>
  and append what they are asked to write to the world, a list of written values.
\<close>

definition example_bits :: routing_bits where
  "example_bits =
    \<lparr>READ_FROM_QEMU = 1, READ_FROM_SERIALICE = 2, WRITE_TO_QEMU = 1, WRITE_TO_SERIALICE = 2\<rparr>"

definition example_filter ::
  "32 word \<Rightarrow> (64 word \<Rightarrow> 64 word) \<Rightarrow> (64 word list) SerialICE_filter" where
  "example_filter m g =
    \<lparr>io_read_pre = (\<lambda>port sz w. (m, w)),
     io_read_post = (\<lambda>d w. (g d, w)),
     io_write_pre = (\<lambda>d port sz w. ((m, g d), w)),
     io_write_post = Pair (),
     load_pre = (\<lambda>addr sz w. (m, w)),
     load_post = (\<lambda>d w. (g d, w)),
     store_pre = (\<lambda>addr sz d w. ((m, g d), w)),
     store_post = Pair (),
     rdmsr_pre = (\<lambda>addr w. (m, w)),
     rdmsr_post = (\<lambda>(hi, lo) w. ((hi, ucast (g (ucast lo))), w)),
     wrmsr_pre = (\<lambda>addr (hi, lo) w. ((m, hi, ucast (g (ucast lo))), w)),
     wrmsr_post = Pair (),
     cpuid_pre = (\<lambda>a c w. (m, w)),
     cpuid_post = (\<lambda>r w. (r\<lparr>eax := ucast (g (ucast (eax r)))\<rparr>, w))\<rparr>"

definition example_target :: "64 word \<Rightarrow> (64 word list) SerialICE_target" where
  "example_target v =
    \<lparr>version = Pair (),
     mainboard = Pair (),
     io_read = (\<lambda>port sz w. (v, w)),
     io_write = (\<lambda>port sz d w. ((), w @ [d])),
     load = (\<lambda>addr sz w. (v, w)),
     store = (\<lambda>addr sz d w. ((), w @ [d])),
     rdmsr = (\<lambda>addr key (hi, lo) w. ((0, ucast v), w)),
     wrmsr = (\<lambda>addr key hi lo w. ((), w @ [push_bit 32 (ucast hi) OR ucast lo])),
     cpuid = (\<lambda>a c r w. (\<lparr>eax = ucast v, ebx = 0, ecx = 0, edx = 0\<rparr>, w))\<rparr>"

definition example_cpu :: "64 word \<Rightarrow> (unit, 64 word list) emulated_cpu" where
  "example_cpu v =
    \<lparr>cpu_rdmsr = (\<lambda>env addr w. (v, w)),
     cpu_wrmsr = (\<lambda>env addr d w. ((), w @ [d])),
     cpu_cpuid = (\<lambda>env a c w. (\<lparr>eax = ucast v, ebx = 0, ecx = 0, edx = 0\<rparr>, w)),
     cpu_io_read_wrapper = (\<lambda>port sz w. (v, w)),
     cpu_io_write_wrapper = (\<lambda>port sz d w. ((), w @ [d]))\<rparr>"

definition start :: "(64 word list) mux_state" where
  "start = \<lparr>world = [], calls = []\<rparr>"

text \<open>The calls an access added to the history.\<close>

definition new_calls :: "'w mux_state \<Rightarrow> 'w mux_state \<Rightarrow> call list" where
  "new_calls s s' = drop (length (calls s)) (calls s')"


section \<open>Properties of the access multiplexer\<close>

lemmas example_defs =
  example_bits_def example_filter_def example_target_def example_cpu_def start_def

lemma mask_data_Some:
  "unat (bytes * 8) < 64 \<Longrightarrow> mask_data val bytes = Some (val AND mask (unat (bytes * 8)))"
  by (simp add: mask_data_def mask_eq_exp_minus_1)

lemma masked_no_high_bits: "drop_bit n ((v :: 64 word) AND mask n) = 0"
  by (simp add: drop_bit_take_bit flip: take_bit_eq_mask)

lemma serialice_io_write_eq:
  assumes "unat (sz * 8) < 64"
    and "io_write_pre f (data AND mask (unat (sz * 8))) port sz (world s) = ((mux, d1), w1)"
  shows "serialice_io_write k f t c port sz data s =
    (let d2 = d1 AND mask (unat (sz * 8));
         s1 = \<lparr>world = w1, calls = calls s @ [Filter_pre]\<rparr>;
         s2 = (if mux AND WRITE_TO_QEMU k \<noteq> 0
               then snd (invoke Emulated_cpu (cpu_io_write_wrapper c port sz d2) s1) else s1);
         s3 = (if mux AND WRITE_TO_SERIALICE k \<noteq> 0
               then snd (invoke Target (io_write t port sz d2) s2) else s2)
     in (Some (), snd (invoke Filter_post (io_write_post f) s3)))"
  using assms
  by (simp add: serialice_io_write_def mask_data_Some invoke_def Let_def split: prod.splits)

lemma serialice_io_read_eq:
  assumes "unat (sz * 8) < 64" and "io_read_pre f port sz (world s) = (mux, w1)"
  shows "serialice_io_read k f t c port sz s =
    (let s1 = \<lparr>world = w1, calls = calls s @ [Filter_pre]\<rparr>;
         (e, s2) = (if mux AND READ_FROM_QEMU k \<noteq> 0
                    then invoke Emulated_cpu (cpu_io_read_wrapper c port sz) s1 else (0, s1));
         (d, s3) = (if mux AND READ_FROM_SERIALICE k \<noteq> 0
                    then invoke Target (io_read t port sz) s2 else (e, s2));
         (r, s4) = invoke Filter_post (io_read_post f (d AND mask (unat (sz * 8)))) s3
     in (Some r, s4))"
  using assms
  by (simp add: serialice_io_read_def mask_data_Some invoke_def Let_def split: prod.splits)

lemma serialice_rdmsr_eq:
  assumes "rdmsr_pre f addr (world s) = (mux, w1)"
  shows "serialice_rdmsr k f t c env addr key s =
    (let s1 = \<lparr>world = w1, calls = calls s @ [Filter_pre]\<rparr>;
         (h2, s2) = (if mux AND READ_FROM_SERIALICE k \<noteq> 0
                     then invoke Target (rdmsr t addr key (0, 0)) s1 else ((0, 0), s1));
         (h3, s3) = (if mux AND READ_FROM_QEMU k \<noteq> 0
                     then (let (data, s') = invoke Emulated_cpu (cpu_rdmsr c env addr) s2
                           in ((ucast (drop_bit 32 data), ucast (data AND 0xffffffff)), s'))
                     else (h2, s2));
         ((hi, lo), s4) = invoke Filter_post (rdmsr_post f h3) s3
     in (push_bit 32 (ucast hi) OR ucast lo, s4))"
  using assms
  by (simp add: serialice_rdmsr_def invoke_def Let_def split: prod.splits)

lemma serialice_cpuid_eq:
  assumes "cpuid_pre f a b (world s) = (mux, w1)"
  shows "serialice_cpuid k f t c env a b s =
    (let s1 = \<lparr>world = w1, calls = calls s @ [Filter_pre]\<rparr>;
         (r2, s2) = (if mux AND READ_FROM_SERIALICE k \<noteq> 0
                     then invoke Target
                            (cpuid t a b \<lparr>eax = 0, ebx = 0, ecx = 0, edx = 0\<rparr>) s1
                     else (\<lparr>eax = 0, ebx = 0, ecx = 0, edx = 0\<rparr>, s1));
         (r3, s3) = (if mux AND READ_FROM_QEMU k \<noteq> 0
                     then invoke Emulated_cpu (cpu_cpuid c env a b) s2 else (r2, s2))
     in invoke Filter_post (cpuid_post f r3) s3)"
  using assms
  by (simp add: serialice_cpuid_def invoke_def Let_def split: prod.splits)

lemma serialice_handle_load_eq:
  assumes "load_pre f addr sz (world s) = (mux, w1)"
  shows "serialice_handle_load k f t addr data sz s =
    (let s1 = \<lparr>world = w1, calls = calls s @ [Filter_pre]\<rparr>;
         (d, s2) = (if mux AND READ_FROM_SERIALICE k \<noteq> 0
                    then invoke Target (load t addr sz) s1 else (data, s1))
     in if mux AND READ_FROM_QEMU k = 0
        then (let (r, s3) = invoke Filter_post (load_post f d) s2 in ((1, r), s3))
        else ((0, d), s2))"
  using assms
  by (simp add: serialice_handle_load_def invoke_def lnot_def Let_def split: prod.splits)

lemma serialice_handle_store_eq:
  assumes "store_pre f addr sz data (world s) = ((mux, d1), w1)"
  shows "serialice_handle_store k f t addr data sz s =
    (let s1 = \<lparr>world = w1, calls = calls s @ [Filter_pre]\<rparr>;
         s2 = (if mux AND WRITE_TO_SERIALICE k \<noteq> 0
               then snd (invoke Target (store t addr sz d1) s1) else s1)
     in (lnot (mux AND WRITE_TO_QEMU k), snd (invoke Filter_post (store_post f) s2)))"
  using assms
  by (simp add: serialice_handle_store_def invoke_def Let_def split: prod.splits)

text \<open>
  C1 (as the code has it). When the routing mask of a read selects both sources, the
  later-applied source's value is the one handed to the post hook and returned.
  \<^verbatim>\<open>serialice_rdmsr\<close> and \<^verbatim>\<open>serialice_cpuid\<close> ask the target first and the
  emulated CPU second, so the emulation value wins. \<^verbatim>\<open>serialice_io_read\<close> asks the
  emulated CPU first and the target second, so the target value wins.
  \<^verbatim>\<open>serialice_handle_load\<close> asks the target only, invokes neither the emulated CPU
  nor the post hook and returns 0: the caller's own memory path processes the access.
\<close>

theorem C1_later_applied_source_wins:
  assumes "mux AND READ_FROM_SERIALICE k \<noteq> 0" and "mux AND READ_FROM_QEMU k \<noteq> 0"
  shows
   "(rdmsr_pre f addr (world s) = (mux, w1) \<longrightarrow>
       serialice_rdmsr k f t c env addr key s =
        (let ((thi, tlo), w2) = rdmsr t addr key (0, 0) w1;
             (d, w3) = cpu_rdmsr c env addr w2;
             ((hi, lo), w4) = rdmsr_post f (ucast (drop_bit 32 d), ucast (d AND 0xffffffff)) w3
         in (push_bit 32 (ucast hi) OR ucast lo,
             \<lparr>world = w4, calls = calls s @ [Filter_pre, Target, Emulated_cpu, Filter_post]\<rparr>)))
  \<and> (cpuid_pre f a b (world s) = (mux, w1) \<longrightarrow>
       serialice_cpuid k f t c env a b s =
        (let (tr, w2) = cpuid t a b \<lparr>eax = 0, ebx = 0, ecx = 0, edx = 0\<rparr> w1;
             (r, w3) = cpu_cpuid c env a b w2;
             (r', w4) = cpuid_post f r w3
         in (r', \<lparr>world = w4, calls = calls s @ [Filter_pre, Target, Emulated_cpu, Filter_post]\<rparr>)))
  \<and> (io_read_pre f port sz (world s) = (mux, w1) \<longrightarrow>
       serialice_io_read k f t c port sz s =
        (let (e, w2) = cpu_io_read_wrapper c port sz w1;
             (d, w3) = io_read t port sz w2
         in case mask_data d sz of
              None \<Rightarrow> (None, \<lparr>world = w3, calls = calls s @ [Filter_pre, Emulated_cpu, Target]\<rparr>)
            | Some m \<Rightarrow>
               (let (r, w4) = io_read_post f m w3
                in (Some r, \<lparr>world = w4,
                      calls = calls s @ [Filter_pre, Emulated_cpu, Target, Filter_post]\<rparr>))))
  \<and> (load_pre f addr sz (world s) = (mux, w1) \<longrightarrow>
       serialice_handle_load k f t addr data sz s =
        (let (d, w2) = load t addr sz w1
         in ((0, d), \<lparr>world = w2, calls = calls s @ [Filter_pre, Target]\<rparr>)))"
  using assms
  by (simp add: serialice_rdmsr_def serialice_cpuid_def serialice_io_read_def
      serialice_handle_load_def invoke_def lnot_def Let_def split: prod.splits option.splits)

theorem C1_later_applied_source_wins_witness:
  "fst (serialice_rdmsr example_bits (example_filter 3 id) (example_target 0x11)
          (example_cpu 0x22) () 0x10 0 start) = 0x22
   \<and> eax (fst (serialice_cpuid example_bits (example_filter 3 id) (example_target 0x11)
          (example_cpu 0x22) () 1 0 start)) = 0x22
   \<and> fst (serialice_io_read example_bits (example_filter 3 id) (example_target 0x11)
          (example_cpu 0x22) 0x80 1 start) = Some 0x11
   \<and> serialice_handle_load example_bits (example_filter 3 id) (example_target 0x11)
          0x1000 5 1 start = ((0, 0x11), \<lparr>world = [], calls = [Filter_pre, Target]\<rparr>)"
  using C1_later_applied_source_wins [where mux = 3 and k = example_bits
      and f = "example_filter 3 id" and t = "example_target 0x11" and c = "example_cpu 0x22"
      and s = start and ?w1.0 = "[]" and env = "()" and addr = "0x10" and key = 0
      and a = 1 and b = 0 and port = "0x80" and sz = 1]
    C1_later_applied_source_wins [where mux = 3 and k = example_bits
      and f = "example_filter 3 id" and t = "example_target 0x11" and c = "example_cpu 0x22"
      and s = start and ?w1.0 = "[]" and addr = "0x1000" and sz = 1 and data = 5]
  by (simp add: example_defs mask_data_def)

text \<open>
  C1 as stated fails for port reads: with both bits set, the emulated CPU reads 0x22, the
  target reads 0x11, and \<^verbatim>\<open>serialice_io_read\<close> returns the target's 0x11.
\<close>

theorem C1_io_read_target_wins:
  "3 AND READ_FROM_SERIALICE example_bits \<noteq> 0 \<and> 3 AND READ_FROM_QEMU example_bits \<noteq> 0
   \<and> fst (cpu_io_read_wrapper (example_cpu 0x22) 0x80 1 []) = 0x22
   \<and> fst (serialice_io_read example_bits (example_filter 3 id) (example_target 0x11)
          (example_cpu 0x22) 0x80 1 start) = Some 0x11"
  by (simp add: serialice_io_read_def example_defs invoke_def mask_data_def)


text \<open>
  C4 (as the code has it), for a size whose shift \<^verbatim>\<open>mask_data\<close> defines.
  \<^verbatim>\<open>serialice_io_read\<close> takes the value of the last backend the mask selects (0 when
  it selects none), masks it to the requested width, hands the masked value to the post
  hook and returns what the post hook made of it, unmasked.
  \<^verbatim>\<open>serialice_io_write\<close> masks the data before the pre hook runs and once more after
  it, so the value written to each selected backend has no bit set above the requested
  width even if the pre hook set one; its post hook takes no data.
\<close>

theorem C4_io_masking:
  assumes "unat (sz * 8) < 64"
  shows
   "(io_read_pre f port sz (world s) = (mux, w1) \<longrightarrow>
       serialice_io_read k f t c port sz s =
        (let s1 = \<lparr>world = w1, calls = calls s @ [Filter_pre]\<rparr>;
             (e, s2) = (if mux AND READ_FROM_QEMU k \<noteq> 0
                        then invoke Emulated_cpu (cpu_io_read_wrapper c port sz) s1
                        else (0, s1));
             (d, s3) = (if mux AND READ_FROM_SERIALICE k \<noteq> 0
                        then invoke Target (io_read t port sz) s2 else (e, s2));
             (r, s4) = invoke Filter_post (io_read_post f (d AND mask (unat (sz * 8)))) s3
         in (Some r, s4)))
  \<and> drop_bit (unat (sz * 8)) ((v :: 64 word) AND mask (unat (sz * 8))) = 0
  \<and> (io_write_pre f (data AND mask (unat (sz * 8))) port sz (world s) = ((mux, d1), w1) \<longrightarrow>
       serialice_io_write k f t c port sz data s =
        (let d2 = d1 AND mask (unat (sz * 8));
             s1 = \<lparr>world = w1, calls = calls s @ [Filter_pre]\<rparr>;
             s2 = (if mux AND WRITE_TO_QEMU k \<noteq> 0
                   then snd (invoke Emulated_cpu (cpu_io_write_wrapper c port sz d2) s1) else s1);
             s3 = (if mux AND WRITE_TO_SERIALICE k \<noteq> 0
                   then snd (invoke Target (io_write t port sz d2) s2) else s2)
         in (Some (), snd (invoke Filter_post (io_write_post f) s3))))"
  using assms serialice_io_read_eq [of sz f port s mux w1 k t c]
    serialice_io_write_eq [of sz f data port s mux d1 w1 k t c]
    masked_no_high_bits [of "unat (sz * 8)" v]
  by blast

theorem C4_io_masking_witness:
  "unat ((1 :: 32 word) * 8) < 64
   \<and> serialice_io_write example_bits (example_filter 3 (\<lambda>d. d + 0x1ff)) (example_target 0)
        (example_cpu 0) 0x80 1 0x1234 start =
      (Some (), \<lparr>world = [0x33, 0x33],
                 calls = [Filter_pre, Emulated_cpu, Target, Filter_post]\<rparr>)
   \<and> serialice_io_read example_bits (example_filter 2 (\<lambda>d. d + 0x100)) (example_target 0x1234)
        (example_cpu 0) 0x80 1 start =
      (Some 0x134, \<lparr>world = [], calls = [Filter_pre, Target, Filter_post]\<rparr>)"
  using C4_io_masking [where sz = 1 and k = example_bits
      and f = "example_filter 3 (\<lambda>d. d + 0x1ff)" and t = "example_target 0"
      and c = "example_cpu 0" and port = "0x80" and data = "0x1234" and s = start
      and mux = 3 and ?d1.0 = "0x233" and ?w1.0 = "[]"]
    C4_io_masking [where sz = 1 and k = example_bits
      and f = "example_filter 2 (\<lambda>d. d + 0x100)" and t = "example_target 0x1234"
      and c = "example_cpu 0" and port = "0x80" and s = start and mux = 2 and ?w1.0 = "[]"]
  by (simp add: example_defs serialice_io_read_def serialice_io_write_def mask_data_def
      invoke_def)

text \<open>
  C4 as stated fails for port reads: the data is not masked again after the post hook.
  A byte read whose post hook sets bit 8 returns 0x111, which has a bit above the
  requested width.
\<close>

theorem C4_io_read_post_unmasked:
  "fst (serialice_io_read example_bits (example_filter 2 (\<lambda>d. d OR 0x100))
          (example_target 0x11) (example_cpu 0x22) 0x80 1 start) = Some 0x111
   \<and> (0x111 :: 64 word) AND NOT 0xff \<noteq> 0"
  by (simp add: serialice_io_read_def example_defs invoke_def mask_data_def)


text \<open>
  C5. When the pre hook of a read selects the target only, no primitive of the emulated
  CPU is invoked and the outcome is the same whatever the emulated CPU is; when it selects
  the emulation only, no function of the target table is invoked and the outcome is the
  same whatever the target is. \<^verbatim>\<open>serialice_handle_load\<close> has no emulated CPU to
  invoke: it leaves the emulation to its caller.
\<close>

theorem C5_unselected_backend_not_invoked:
  fixes c c' :: "('e, 'w) emulated_cpu" and t t' :: "'w SerialICE_target"
  shows
   "(mux AND READ_FROM_SERIALICE k \<noteq> 0 \<and> mux AND READ_FROM_QEMU k = 0 \<longrightarrow>
       (io_read_pre f port sz (world s) = (mux, w1) \<longrightarrow>
          serialice_io_read k f t c port sz s = serialice_io_read k f t c' port sz s
        \<and> Emulated_cpu \<notin> set (new_calls s (snd (serialice_io_read k f t c port sz s))))
     \<and> (rdmsr_pre f addr (world s) = (mux, w1) \<longrightarrow>
          serialice_rdmsr k f t c env addr key s = serialice_rdmsr k f t c' env addr key s
        \<and> Emulated_cpu \<notin> set (new_calls s (snd (serialice_rdmsr k f t c env addr key s))))
     \<and> (cpuid_pre f a b (world s) = (mux, w1) \<longrightarrow>
          serialice_cpuid k f t c env a b s = serialice_cpuid k f t c' env a b s
        \<and> Emulated_cpu \<notin> set (new_calls s (snd (serialice_cpuid k f t c env a b s))))
     \<and> (load_pre f addr sz (world s) = (mux, w1) \<longrightarrow>
          Emulated_cpu \<notin> set (new_calls s (snd (serialice_handle_load k f t addr data sz s)))))
  \<and> (mux AND READ_FROM_SERIALICE k = 0 \<and> mux AND READ_FROM_QEMU k \<noteq> 0 \<longrightarrow>
       (io_read_pre f port sz (world s) = (mux, w1) \<longrightarrow>
          serialice_io_read k f t c port sz s = serialice_io_read k f t' c port sz s
        \<and> Target \<notin> set (new_calls s (snd (serialice_io_read k f t c port sz s))))
     \<and> (rdmsr_pre f addr (world s) = (mux, w1) \<longrightarrow>
          serialice_rdmsr k f t c env addr key s = serialice_rdmsr k f t' c env addr key s
        \<and> Target \<notin> set (new_calls s (snd (serialice_rdmsr k f t c env addr key s))))
     \<and> (cpuid_pre f a b (world s) = (mux, w1) \<longrightarrow>
          serialice_cpuid k f t c env a b s = serialice_cpuid k f t' c env a b s
        \<and> Target \<notin> set (new_calls s (snd (serialice_cpuid k f t c env a b s))))
     \<and> (load_pre f addr sz (world s) = (mux, w1) \<longrightarrow>
          serialice_handle_load k f t addr data sz s = serialice_handle_load k f t' addr data sz s
        \<and> Target \<notin> set (new_calls s (snd (serialice_handle_load k f t addr data sz s)))))"
  by (simp add: serialice_rdmsr_def serialice_cpuid_def serialice_io_read_def
      serialice_handle_load_def invoke_def new_calls_def lnot_def Let_def
      split: prod.splits option.splits)

theorem C5_unselected_backend_not_invoked_witness:
  "serialice_io_read example_bits (example_filter 2 id) (example_target 0x11)
      (example_cpu 0x22) 0x80 1 start =
    serialice_io_read example_bits (example_filter 2 id) (example_target 0x11)
      (example_cpu 0x33) 0x80 1 start
   \<and> Emulated_cpu \<notin> set (new_calls start (snd (serialice_io_read example_bits
        (example_filter 2 id) (example_target 0x11) (example_cpu 0x22) 0x80 1 start)))
   \<and> serialice_rdmsr example_bits (example_filter 1 id) (example_target 0x11)
      (example_cpu 0x22) () 0x10 0 start =
    serialice_rdmsr example_bits (example_filter 1 id) (example_target 0x44)
      (example_cpu 0x22) () 0x10 0 start
   \<and> Target \<notin> set (new_calls start (snd (serialice_rdmsr example_bits
        (example_filter 1 id) (example_target 0x11) (example_cpu 0x22) () 0x10 0 start)))"
  using C5_unselected_backend_not_invoked [where mux = 2 and k = example_bits
      and f = "example_filter 2 id" and t = "example_target 0x11" and c = "example_cpu 0x22"
      and c' = "example_cpu 0x33" and port = "0x80" and sz = 1 and s = start and ?w1.0 = "[]"]
    C5_unselected_backend_not_invoked [where mux = 1 and k = example_bits
      and f = "example_filter 1 id" and t = "example_target 0x11" and t' = "example_target 0x44"
      and c = "example_cpu 0x22" and env = "()" and addr = "0x10" and key = 0 and s = start
      and ?w1.0 = "[]"]
  by (simp add: example_defs serialice_io_read_def serialice_rdmsr_def invoke_def
      new_calls_def mask_data_def)

text \<open>
  C9 (as the code has it). \<^verbatim>\<open>serialice_rdmsr\<close>, \<^verbatim>\<open>serialice_cpuid\<close> and
  \<^verbatim>\<open>serialice_io_read\<close> (for a size whose shift \<^verbatim>\<open>mask_data\<close> defines) take the
  value of the last source the mask selects (zero when it selects none), hand it to the
  post hook as their last call and return what the post hook made of it.
  \<^verbatim>\<open>serialice_handle_load\<close> does so exactly when the routing mask does not select the
  emulation, with the caller's data when the target is not selected either; when the mask
  selects the emulation, the post hook is skipped, the data is returned as the target
  step left it, and the result 0 passes the access on to the caller.
\<close>

theorem C9_post_hook:
  "(rdmsr_pre f addr (world s) = (mux, w1) \<longrightarrow>
      serialice_rdmsr k f t c env addr key s =
       (let s1 = \<lparr>world = w1, calls = calls s @ [Filter_pre]\<rparr>;
            (h2, s2) = (if mux AND READ_FROM_SERIALICE k \<noteq> 0
                        then invoke Target (rdmsr t addr key (0, 0)) s1 else ((0, 0), s1));
            (h3, s3) = (if mux AND READ_FROM_QEMU k \<noteq> 0
                        then (let (data, s') = invoke Emulated_cpu (cpu_rdmsr c env addr) s2
                              in ((ucast (drop_bit 32 data), ucast (data AND 0xffffffff)), s'))
                        else (h2, s2));
            ((hi, lo), s4) = invoke Filter_post (rdmsr_post f h3) s3
        in (push_bit 32 (ucast hi) OR ucast lo, s4)))
   \<and> (cpuid_pre f a b (world s) = (mux, w1) \<longrightarrow>
      serialice_cpuid k f t c env a b s =
       (let s1 = \<lparr>world = w1, calls = calls s @ [Filter_pre]\<rparr>;
            (r2, s2) = (if mux AND READ_FROM_SERIALICE k \<noteq> 0
                        then invoke Target
                               (cpuid t a b \<lparr>eax = 0, ebx = 0, ecx = 0, edx = 0\<rparr>) s1
                        else (\<lparr>eax = 0, ebx = 0, ecx = 0, edx = 0\<rparr>, s1));
            (r3, s3) = (if mux AND READ_FROM_QEMU k \<noteq> 0
                        then invoke Emulated_cpu (cpu_cpuid c env a b) s2 else (r2, s2))
        in invoke Filter_post (cpuid_post f r3) s3))
   \<and> (unat (sz * 8) < 64 \<and> io_read_pre f port sz (world s) = (mux, w1) \<longrightarrow>
      serialice_io_read k f t c port sz s =
       (let s1 = \<lparr>world = w1, calls = calls s @ [Filter_pre]\<rparr>;
            (e, s2) = (if mux AND READ_FROM_QEMU k \<noteq> 0
                       then invoke Emulated_cpu (cpu_io_read_wrapper c port sz) s1
                       else (0, s1));
            (d, s3) = (if mux AND READ_FROM_SERIALICE k \<noteq> 0
                       then invoke Target (io_read t port sz) s2 else (e, s2));
            (r, s4) = invoke Filter_post (io_read_post f (d AND mask (unat (sz * 8)))) s3
        in (Some r, s4)))
   \<and> (load_pre f addr sz (world s) = (mux, w1) \<longrightarrow>
      serialice_handle_load k f t addr data sz s =
       (let s1 = \<lparr>world = w1, calls = calls s @ [Filter_pre]\<rparr>;
            (d, s2) = (if mux AND READ_FROM_SERIALICE k \<noteq> 0
                       then invoke Target (load t addr sz) s1 else (data, s1))
        in if mux AND READ_FROM_QEMU k = 0
           then (let (r, s3) = invoke Filter_post (load_post f d) s2 in ((1, r), s3))
           else ((0, d), s2))
    \<and> (mux AND READ_FROM_QEMU k \<noteq> 0 \<longrightarrow>
         Filter_post \<notin> set (new_calls s (snd (serialice_handle_load k f t addr data sz s)))))"
proof (intro conjI impI)
  assume "rdmsr_pre f addr (world s) = (mux, w1)"
  then show "serialice_rdmsr k f t c env addr key s =
       (let s1 = \<lparr>world = w1, calls = calls s @ [Filter_pre]\<rparr>;
            (h2, s2) = (if mux AND READ_FROM_SERIALICE k \<noteq> 0
                        then invoke Target (rdmsr t addr key (0, 0)) s1 else ((0, 0), s1));
            (h3, s3) = (if mux AND READ_FROM_QEMU k \<noteq> 0
                        then (let (data, s') = invoke Emulated_cpu (cpu_rdmsr c env addr) s2
                              in ((ucast (drop_bit 32 data), ucast (data AND 0xffffffff)), s'))
                        else (h2, s2));
            ((hi, lo), s4) = invoke Filter_post (rdmsr_post f h3) s3
        in (push_bit 32 (ucast hi) OR ucast lo, s4))"
    by (rule serialice_rdmsr_eq)
next
  assume "cpuid_pre f a b (world s) = (mux, w1)"
  then show "serialice_cpuid k f t c env a b s =
       (let s1 = \<lparr>world = w1, calls = calls s @ [Filter_pre]\<rparr>;
            (r2, s2) = (if mux AND READ_FROM_SERIALICE k \<noteq> 0
                        then invoke Target
                               (cpuid t a b \<lparr>eax = 0, ebx = 0, ecx = 0, edx = 0\<rparr>) s1
                        else (\<lparr>eax = 0, ebx = 0, ecx = 0, edx = 0\<rparr>, s1));
            (r3, s3) = (if mux AND READ_FROM_QEMU k \<noteq> 0
                        then invoke Emulated_cpu (cpu_cpuid c env a b) s2 else (r2, s2))
        in invoke Filter_post (cpuid_post f r3) s3)"
    by (rule serialice_cpuid_eq)
next
  assume "unat (sz * 8) < 64 \<and> io_read_pre f port sz (world s) = (mux, w1)"
  then show "serialice_io_read k f t c port sz s =
       (let s1 = \<lparr>world = w1, calls = calls s @ [Filter_pre]\<rparr>;
            (e, s2) = (if mux AND READ_FROM_QEMU k \<noteq> 0
                       then invoke Emulated_cpu (cpu_io_read_wrapper c port sz) s1
                       else (0, s1));
            (d, s3) = (if mux AND READ_FROM_SERIALICE k \<noteq> 0
                       then invoke Target (io_read t port sz) s2 else (e, s2));
            (r, s4) = invoke Filter_post (io_read_post f (d AND mask (unat (sz * 8)))) s3
        in (Some r, s4))"
    by (simp add: serialice_io_read_eq)
next
  assume "load_pre f addr sz (world s) = (mux, w1)"
  then show "serialice_handle_load k f t addr data sz s =
       (let s1 = \<lparr>world = w1, calls = calls s @ [Filter_pre]\<rparr>;
            (d, s2) = (if mux AND READ_FROM_SERIALICE k \<noteq> 0
                       then invoke Target (load t addr sz) s1 else (data, s1))
        in if mux AND READ_FROM_QEMU k = 0
           then (let (r, s3) = invoke Filter_post (load_post f d) s2 in ((1, r), s3))
           else ((0, d), s2))"
    by (rule serialice_handle_load_eq)
next
  assume "load_pre f addr sz (world s) = (mux, w1)" and "mux AND READ_FROM_QEMU k \<noteq> 0"
  then show
    "Filter_post \<notin> set (new_calls s (snd (serialice_handle_load k f t addr data sz s)))"
    by (simp add: serialice_handle_load_def invoke_def lnot_def new_calls_def Let_def
        split: prod.splits)
qed

theorem C9_post_hook_witness:
  "serialice_handle_load example_bits (example_filter 2 (\<lambda>d. d OR 0x100)) (example_target 0x11)
      0x1000 5 1 start
    = ((1, 0x111), \<lparr>world = [], calls = [Filter_pre, Target, Filter_post]\<rparr>)
   \<and> serialice_handle_load example_bits (example_filter 3 (\<lambda>d. d OR 0x100)) (example_target 0x11)
      0x1000 5 1 start
    = ((0, 0x11), \<lparr>world = [], calls = [Filter_pre, Target]\<rparr>)
   \<and> serialice_rdmsr example_bits (example_filter 2 (\<lambda>d. d OR 0x100)) (example_target 0x11)
      (example_cpu 0x22) () 0x10 0 start
    = (0x111, \<lparr>world = [], calls = [Filter_pre, Target, Filter_post]\<rparr>)
   \<and> unat ((1 :: 32 word) * 8) < 64
   \<and> serialice_io_read example_bits (example_filter 1 (\<lambda>d. d OR 0x100)) (example_target 0x11)
      (example_cpu 0x22) 0x80 1 start
    = (Some 0x122, \<lparr>world = [], calls = [Filter_pre, Emulated_cpu, Filter_post]\<rparr>)"
  using C9_post_hook [where k = example_bits and f = "example_filter 2 (\<lambda>d. d OR 0x100)"
      and t = "example_target 0x11" and c = "example_cpu 0x22" and env = "()"
      and addr = "0x1000" and data = 5 and sz = 1 and s = start
      and mux = 2 and ?w1.0 = "[]"]
    C9_post_hook [where k = example_bits and f = "example_filter 3 (\<lambda>d. d OR 0x100)"
      and t = "example_target 0x11" and addr = "0x1000" and data = 5 and sz = 1 and s = start
      and mux = 3 and ?w1.0 = "[]"]
    C9_post_hook [where k = example_bits and f = "example_filter 2 (\<lambda>d. d OR 0x100)"
      and t = "example_target 0x11" and c = "example_cpu 0x22" and env = "()"
      and addr = "0x10" and key = 0 and s = start and mux = 2 and ?w1.0 = "[]"]
    C9_post_hook [where k = example_bits and f = "example_filter 1 (\<lambda>d. d OR 0x100)"
      and t = "example_target 0x11" and c = "example_cpu 0x22" and port = "0x80" and sz = 1
      and s = start and mux = 1 and ?w1.0 = "[]"]
  by (simp add: example_defs serialice_handle_load_def serialice_rdmsr_def
      serialice_io_read_def mask_data_def invoke_def lnot_def)

text \<open>
  C9 as stated fails for loads: when the routing mask selects the emulation, the load post
  hook is not invoked. Here it would have set bit 8 of the data; the data comes back as
  it went in and the history holds the pre hook only.
\<close>

theorem C9_load_post_skipped:
  "serialice_handle_load example_bits (example_filter 1 (\<lambda>d. d OR 0x100)) (example_target 0x11)
      0x1000 5 1 start
    = ((0, 5), \<lparr>world = [], calls = [Filter_pre]\<rparr>)
   \<and> fst (load_post (example_filter 1 (\<lambda>d. d OR 0x100)) 5 []) = 0x105"
  by (simp add: serialice_handle_load_def example_defs invoke_def lnot_def)


text \<open>
  C10 (as the code has it). In a write the pre hook receives the data by reference.
  \<^verbatim>\<open>serialice_io_write\<close> hands the masked data to the pre hook and writes the hook's
  value, masked once more, to the emulated CPU and to the target, whichever the mask
  selects; \<^verbatim>\<open>serialice_wrmsr\<close> writes the hook's two halves to the target and their
  recombination to the emulated CPU. \<^verbatim>\<open>serialice_handle_store\<close> writes the hook's
  value to the target when the mask selects it and never writes to the emulated CPU: it
  takes the data by value and returns only the flag that tells its caller whether the
  emulator's own memory path must apply the store, so the value the pre hook left does not
  reach the emulation side.
\<close>

theorem C10_writes_use_pre_hook_value:
  "(unat (sz * 8) < 64
      \<and> io_write_pre f (data AND mask (unat (sz * 8))) port sz (world s) = ((mux, d1), w1) \<longrightarrow>
      serialice_io_write k f t c port sz data s =
        (let d2 = d1 AND mask (unat (sz * 8));
             s1 = \<lparr>world = w1, calls = calls s @ [Filter_pre]\<rparr>;
             s2 = (if mux AND WRITE_TO_QEMU k \<noteq> 0
                   then snd (invoke Emulated_cpu (cpu_io_write_wrapper c port sz d2) s1) else s1);
             s3 = (if mux AND WRITE_TO_SERIALICE k \<noteq> 0
                   then snd (invoke Target (io_write t port sz d2) s2) else s2)
         in (Some (), snd (invoke Filter_post (io_write_post f) s3))))
   \<and> (wrmsr_pre f addr (ucast (drop_bit 32 data), ucast (data AND 0xffffffff)) (world s)
        = ((mux, hi1, lo1), w1) \<longrightarrow>
      serialice_wrmsr k f t c env data addr key s =
        (let s1 = \<lparr>world = w1, calls = calls s @ [Filter_pre]\<rparr>;
             s2 = (if mux AND WRITE_TO_SERIALICE k \<noteq> 0
                   then snd (invoke Target (wrmsr t addr key hi1 lo1) s1) else s1);
             s3 = (if mux AND WRITE_TO_QEMU k \<noteq> 0
                   then snd (invoke Emulated_cpu
                     (cpu_wrmsr c env addr (ucast lo1 OR push_bit 32 (ucast hi1))) s2)
                   else s2)
         in invoke Filter_post (wrmsr_post f) s3))
   \<and> (store_pre f addr sz data (world s) = ((mux, d1), w1) \<longrightarrow>
      serialice_handle_store k f t addr data sz s =
        (let s1 = \<lparr>world = w1, calls = calls s @ [Filter_pre]\<rparr>;
             s2 = (if mux AND WRITE_TO_SERIALICE k \<noteq> 0
                   then snd (invoke Target (store t addr sz d1) s1) else s1)
         in (lnot (mux AND WRITE_TO_QEMU k), snd (invoke Filter_post (store_post f) s2)))
    \<and> Emulated_cpu \<notin> set (new_calls s (snd (serialice_handle_store k f t addr data sz s)))
    \<and> (mux AND WRITE_TO_SERIALICE k = 0 \<longrightarrow>
         serialice_handle_store k f t addr data sz s =
           (lnot (mux AND WRITE_TO_QEMU k),
            snd (invoke Filter_post (store_post f)
                   \<lparr>world = w1, calls = calls s @ [Filter_pre]\<rparr>))))"
proof (intro conjI impI)
  assume "unat (sz * 8) < 64
      \<and> io_write_pre f (data AND mask (unat (sz * 8))) port sz (world s) = ((mux, d1), w1)"
  then show "serialice_io_write k f t c port sz data s =
        (let d2 = d1 AND mask (unat (sz * 8));
             s1 = \<lparr>world = w1, calls = calls s @ [Filter_pre]\<rparr>;
             s2 = (if mux AND WRITE_TO_QEMU k \<noteq> 0
                   then snd (invoke Emulated_cpu (cpu_io_write_wrapper c port sz d2) s1) else s1);
             s3 = (if mux AND WRITE_TO_SERIALICE k \<noteq> 0
                   then snd (invoke Target (io_write t port sz d2) s2) else s2)
         in (Some (), snd (invoke Filter_post (io_write_post f) s3)))"
    by (simp add: serialice_io_write_eq)
next
  assume "wrmsr_pre f addr (ucast (drop_bit 32 data), ucast (data AND 0xffffffff)) (world s)
        = ((mux, hi1, lo1), w1)"
  then show "serialice_wrmsr k f t c env data addr key s =
        (let s1 = \<lparr>world = w1, calls = calls s @ [Filter_pre]\<rparr>;
             s2 = (if mux AND WRITE_TO_SERIALICE k \<noteq> 0
                   then snd (invoke Target (wrmsr t addr key hi1 lo1) s1) else s1);
             s3 = (if mux AND WRITE_TO_QEMU k \<noteq> 0
                   then snd (invoke Emulated_cpu
                     (cpu_wrmsr c env addr (ucast lo1 OR push_bit 32 (ucast hi1))) s2)
                   else s2)
         in invoke Filter_post (wrmsr_post f) s3)"
    by (simp add: serialice_wrmsr_def invoke_def Let_def split: prod.splits)
next
  assume "store_pre f addr sz data (world s) = ((mux, d1), w1)"
  then show "serialice_handle_store k f t addr data sz s =
        (let s1 = \<lparr>world = w1, calls = calls s @ [Filter_pre]\<rparr>;
             s2 = (if mux AND WRITE_TO_SERIALICE k \<noteq> 0
                   then snd (invoke Target (store t addr sz d1) s1) else s1)
         in (lnot (mux AND WRITE_TO_QEMU k), snd (invoke Filter_post (store_post f) s2)))"
    by (rule serialice_handle_store_eq)
next
  assume "store_pre f addr sz data (world s) = ((mux, d1), w1)"
  then show
    "Emulated_cpu \<notin> set (new_calls s (snd (serialice_handle_store k f t addr data sz s)))"
    by (simp add: serialice_handle_store_def invoke_def new_calls_def Let_def
        split: prod.splits)
next
  assume "store_pre f addr sz data (world s) = ((mux, d1), w1)"
    and "mux AND WRITE_TO_SERIALICE k = 0"
  then show "serialice_handle_store k f t addr data sz s =
           (lnot (mux AND WRITE_TO_QEMU k),
            snd (invoke Filter_post (store_post f)
                   \<lparr>world = w1, calls = calls s @ [Filter_pre]\<rparr>))"
    by (simp add: serialice_handle_store_eq)
qed

theorem C10_writes_use_pre_hook_value_witness:
  "serialice_io_write example_bits (example_filter 3 (\<lambda>d. d + 0x1ff)) (example_target 0)
      (example_cpu 0) 0x80 1 0x1234 start =
     (Some (), \<lparr>world = [0x33, 0x33], calls = [Filter_pre, Emulated_cpu, Target, Filter_post]\<rparr>)
   \<and> serialice_handle_store example_bits (example_filter 2 (\<lambda>d. d + 1)) (example_target 0)
      0x1000 0x1234 2 start =
     (1, \<lparr>world = [0x1235], calls = [Filter_pre, Target, Filter_post]\<rparr>)
   \<and> serialice_wrmsr example_bits (example_filter 3 (\<lambda>d. d + 1)) (example_target 0)
      (example_cpu 0) () 0x500000007 0x10 0 start =
     ((), \<lparr>world = [0x500000008, 0x500000008],
           calls = [Filter_pre, Target, Emulated_cpu, Filter_post]\<rparr>)"
  using C10_writes_use_pre_hook_value [where k = example_bits
      and f = "example_filter 3 (\<lambda>d. d + 0x1ff)" and t = "example_target 0"
      and c = "example_cpu 0" and port = "0x80" and sz = 1 and data = "0x1234" and s = start
      and mux = 3 and ?d1.0 = "0x233" and ?w1.0 = "[]"]
    C10_writes_use_pre_hook_value [where k = example_bits
      and f = "example_filter 2 (\<lambda>d. d + 1)" and t = "example_target 0"
      and addr = "0x1000" and sz = 2 and data = "0x1234" and s = start
      and mux = 2 and ?d1.0 = "0x1235" and ?w1.0 = "[]"]
    C10_writes_use_pre_hook_value [where k = example_bits
      and f = "example_filter 3 (\<lambda>d. d + 1)" and t = "example_target 0"
      and c = "example_cpu 0" and env = "()" and addr = "0x10" and key = 0
      and data = "0x500000007" and s = start
      and mux = 3 and ?hi1.0 = 5 and ?lo1.0 = 8 and ?w1.0 = "[]"]
  by (simp add: example_defs serialice_io_write_def serialice_handle_store_def
      serialice_wrmsr_def mask_data_def invoke_def lnot_def)

text \<open>
  C10 as stated fails for stores on the emulation side. The pre hook rewrites 0x1234 to
  0x1235. With the emulation selected, \<^verbatim>\<open>serialice_handle_store\<close> returns 0, which
  tells its caller to apply the store itself, and hands over nothing else: together with
  the target only the target is written (with 0x1235), with the emulation alone nothing is
  written, and the outcome is the same whatever the pre hook left in the data.
\<close>

theorem C10_store_emulation_side:
  "3 AND WRITE_TO_QEMU example_bits \<noteq> 0 \<and> 1 AND WRITE_TO_QEMU example_bits \<noteq> 0
   \<and> fst (store_pre (example_filter 1 (\<lambda>d. d + 1)) 0x1000 2 0x1234 []) = (1, 0x1235)
   \<and> serialice_handle_store example_bits (example_filter 3 (\<lambda>d. d + 1)) (example_target 0)
        0x1000 0x1234 2 start
      = (0, \<lparr>world = [0x1235], calls = [Filter_pre, Target, Filter_post]\<rparr>)
   \<and> serialice_handle_store example_bits (example_filter 1 (\<lambda>d. d + 1)) (example_target 0)
        0x1000 0x1234 2 start
      = (0, \<lparr>world = [], calls = [Filter_pre, Filter_post]\<rparr>)
   \<and> serialice_handle_store example_bits (example_filter 1 (\<lambda>d. d + 1)) (example_target 0)
        0x1000 0x1234 2 start
      = serialice_handle_store example_bits (example_filter 1 (\<lambda>d. d + 7)) (example_target 0)
        0x1000 0x1234 2 start"
  by (simp add: serialice_handle_store_def example_defs invoke_def lnot_def)


section \<open>Properties of the link\<close>

lemma serialice_read_loop_silent:
  assumes "serialice_read_loop n got [] = Some y"
  shows "n \<le> length got"
proof -
  have "fd = [] \<longrightarrow> n \<le> length got" if "serialice_read_loop n got fd = Some y" for fd
    by (rule serialice_read_loop.raw_induct
          [where P = "\<lambda>n got fd y. fd = [] \<longrightarrow> n \<le> length got", OF _ that])
       (auto split: if_splits)
  with assms show ?thesis by blast
qed

lemma read_echo_silent: "read_echo [] = None"
proof -
  have "fd \<noteq> []" if "read_echo fd = Some y" for fd y
    by (rule read_echo.raw_induct [where P = "\<lambda>fd y. fd \<noteq> []", OF _ that])
       (fastforce split: if_splits)
  then show ?thesis by (cases "read_echo []") auto
qed

lemma serialice_read_loop_enough:
  "no_hard_error fd \<Longrightarrow> n \<le> length got + length (delivers fd) \<Longrightarrow>
   \<exists>fd'. serialice_read_loop n got fd = Some (got @ take (n - length got) (delivers fd), fd')
     \<and> no_hard_error fd' \<and> delivers fd' = drop (n - length got) (delivers fd)"
proof (induction fd arbitrary: got)
  case Nil
  then show ?case by (subst serialice_read_loop.simps) simp
next
  case (Cons ev fd)
  show ?case
  proof (cases ev)
    case (Fail e)
    with Cons.prems have e: "e = EINTR" and ok: "no_hard_error fd"
      and len: "n \<le> length got + length (delivers fd)" by simp_all
    from Cons.IH [OF ok len] show ?thesis
      using Fail e by (subst serialice_read_loop.simps) simp
  next
    case (Data bs)
    with Cons.prems have ok: "no_hard_error fd"
      and len: "n \<le> length got + length bs + length (delivers fd)" by simp_all
    show ?thesis
    proof (cases "n - length got \<le> length bs")
      case True
      then show ?thesis
        using Data ok by (subst serialice_read_loop.simps) (auto simp: min_def)
    next
      case False
      then have short: "length bs < n - length got" by simp
      with len have len': "n \<le> length (got @ bs) + length (delivers fd)" by simp
      from Cons.IH [OF ok len'] show ?thesis
        using Data short by (subst serialice_read_loop.simps) (auto simp: min_def)
    qed
  qed
qed

lemma serialice_read_loop_starved:
  "no_hard_error fd \<Longrightarrow> length got + length (delivers fd) < n \<Longrightarrow>
   serialice_read_loop n got fd = None"
proof (induction fd arbitrary: got)
  case Nil
  then show ?case
    using serialice_read_loop_silent [of n got] by (cases "serialice_read_loop n got []") auto
next
  case (Cons ev fd)
  show ?case
  proof (cases ev)
    case (Fail e)
    with Cons.prems have e: "e = EINTR" and ok: "no_hard_error fd"
      and len: "length got + length (delivers fd) < n" by simp_all
    from Cons.IH [OF ok len] show ?thesis
      using Fail e by (subst serialice_read_loop.simps) simp
  next
    case (Data bs)
    with Cons.prems have ok: "no_hard_error fd"
      and len: "length (got @ bs) + length (delivers fd) < n" by simp_all
    from Cons.IH [OF ok len] show ?thesis
      using Data len by (subst serialice_read_loop.simps) (auto simp: min_def)
  qed
qed

lemma serialice_read_enough:
  assumes "no_hard_error (fd_in st)" and "n \<le> length (delivers (fd_in st))"
  shows "\<exists>fd'. serialice_read st n = Some (take n (delivers (fd_in st)), st\<lparr>fd_in := fd'\<rparr>)
     \<and> no_hard_error fd' \<and> delivers fd' = drop n (delivers (fd_in st))"
  using serialice_read_loop_enough [of "fd_in st" n "[]"] assms
  by (auto simp: serialice_read_def)

lemma serialice_read_starved:
  assumes "no_hard_error (fd_in st)" and "length (delivers (fd_in st)) < n"
  shows "serialice_read st n = None"
  using serialice_read_loop_starved [of "fd_in st" "[]" n] assms
  by (simp add: serialice_read_def)

lemma read_echo_byte:
  "no_hard_error fd \<Longrightarrow> delivers fd = c # rest \<Longrightarrow>
   \<exists>fd'. read_echo fd = Some (c, fd') \<and> no_hard_error fd' \<and> delivers fd' = rest"
proof (induction fd)
  case Nil
  then show ?case by simp
next
  case (Cons ev fd)
  show ?case
  proof (cases ev)
    case (Fail e)
    with Cons show ?thesis by (subst read_echo.simps) simp
  next
    case (Data bs)
    show ?thesis
    proof (cases bs)
      case Nil
      with Data Cons show ?thesis by (subst read_echo.simps) simp
    next
      case (Cons b bs')
      with Data Cons.prems show ?thesis by (subst read_echo.simps) auto
    qed
  qed
qed

lemma serialice_write_echoed:
  "no_hard_error (fd_in st) \<Longrightarrow> delivers (fd_in st) = e @ rest \<Longrightarrow> length e = length cmd \<Longrightarrow>
   \<exists>st'. serialice_write st cmd = Some st' \<and> no_hard_error (fd_in st')
     \<and> delivers (fd_in st') = rest \<and> fd_out st' = fd_out st @ cmd
     \<and> buffer st' = buffer st \<and> stack st' = stack st"
proof (induction cmd arbitrary: st e)
  case Nil
  then show ?case by simp
next
  case (Cons b cmd)
  then obtain c e' where e: "e = c # e'" and len: "length e' = length cmd"
    by (cases e) auto
  let ?st1 = "st\<lparr>fd_out := fd_out st @ [b]\<rparr>"
  from Cons.prems e obtain fd' where echo: "read_echo (fd_in st) = Some (c, fd')"
    and ok: "no_hard_error fd'" and rest: "delivers fd' = e' @ rest"
    using read_echo_byte [of "fd_in st" c "e' @ rest"] by auto
  let ?st2 = "?st1\<lparr>fd_in := fd'\<rparr>"
  let ?st3 = "if c \<noteq> b \<and> \<not> handshake_mode ?st2
              then ?st2\<lparr>printed := printed ?st2 @ [Readback_error c b]\<rparr> else ?st2"
  have "no_hard_error (fd_in ?st3)" and "delivers (fd_in ?st3) = e' @ rest"
    using ok rest by auto
  from Cons.IH [OF this len] obtain st' where
    "serialice_write ?st3 cmd = Some st'" "no_hard_error (fd_in st')"
    "delivers (fd_in st') = rest" "fd_out st' = fd_out ?st3 @ cmd"
    "buffer st' = buffer ?st3" "stack st' = stack ?st3"
    by blast
  then show ?case using echo by (auto simp: Let_def)
qed

lemma ends_with_prompt_Cons:
  "3 \<le> length ys \<Longrightarrow> ends_with_prompt (x # ys) = ends_with_prompt ys"
proof -
  assume "3 \<le> length ys"
  then have "length (x # ys) - 3 = Suc (length ys - 3)" by simp
  then show ?thesis using \<open>3 \<le> length ys\<close> by (simp add: ends_with_prompt_def)
qed

lemma ends_with_prompt_three: "length buf = 3 \<Longrightarrow> ends_with_prompt buf = (buf = prompt)"
  by (simp add: ends_with_prompt_def)

lemma ends_with_prompt_shift:
  assumes "length buf = 3"
  shows "ends_with_prompt (buf @ b # xs) = ends_with_prompt ((tl buf @ [b]) @ xs)"
proof -
  from assms obtain x y z where "buf = [x, y, z]"
    by (cases buf; cases "tl buf"; cases "tl (tl buf)") auto
  then show ?thesis
    using ends_with_prompt_Cons [of "[y, z, b] @ xs" x] by simp
qed

lemma wait_prompt_loop_done: "wait_prompt_loop prompt st = Some (Returns 0 st)"
  by (subst wait_prompt_loop.simps) (simp add: prompt_def)

lemma wait_prompt_loop_next:
  assumes "length buf = 3" and "buf \<noteq> prompt" and "serialice_read st 1 = Some ([b], st')"
  shows "wait_prompt_loop buf st = wait_prompt_loop (tl buf @ [b]) st'"
proof -
  from assms(1) obtain x y z where "buf = [x, y, z]"
    by (cases buf; cases "tl buf"; cases "tl (tl buf)") auto
  then show ?thesis
    using assms(2,3)
    by (subst wait_prompt_loop.simps) (auto simp: prompt_def store_at_def)
qed

lemma wait_prompt_loop_blocked:
  assumes "length buf = 3" and "buf \<noteq> prompt" and "serialice_read st 1 = None"
  shows "wait_prompt_loop buf st = None"
proof -
  from assms(1) obtain x y z where "buf = [x, y, z]"
    by (cases buf; cases "tl buf"; cases "tl (tl buf)") auto
  then show ?thesis
    using assms(2,3)
    by (subst wait_prompt_loop.simps) (auto simp: prompt_def)
qed

lemma wait_prompt_loop_returns:
  "no_hard_error (fd_in st) \<Longrightarrow> length buf = 3 \<Longrightarrow> k \<le> length (delivers (fd_in st)) \<Longrightarrow>
   ends_with_prompt (buf @ take k (delivers (fd_in st))) \<Longrightarrow>
   \<forall>j<k. \<not> ends_with_prompt (buf @ take j (delivers (fd_in st))) \<Longrightarrow>
   \<exists>fd'. wait_prompt_loop buf st = Some (Returns 0 (st\<lparr>fd_in := fd'\<rparr>))
     \<and> no_hard_error fd' \<and> delivers fd' = drop k (delivers (fd_in st))"
proof (induction k arbitrary: buf st)
  case 0
  then have "buf = prompt" by (simp add: ends_with_prompt_three)
  then have "wait_prompt_loop buf st = Some (Returns 0 (st\<lparr>fd_in := fd_in st\<rparr>))
     \<and> no_hard_error (fd_in st) \<and> delivers (fd_in st) = drop 0 (delivers (fd_in st))"
    using "0.prems" by (simp add: wait_prompt_loop_done)
  then show ?case by blast
next
  case (Suc k)
  let ?bs = "delivers (fd_in st)"
  from Suc.prems obtain b bs' where bs: "?bs = b # bs'" by (cases ?bs) auto
  from Suc.prems(5) have "\<not> ends_with_prompt (buf @ take 0 ?bs)" by blast
  with Suc.prems(2) have nomatch: "buf \<noteq> prompt" by (simp add: ends_with_prompt_three)
  from serialice_read_enough [of st 1] Suc.prems bs obtain fd1 where
    rd: "serialice_read st 1 = Some ([b], st\<lparr>fd_in := fd1\<rparr>)"
    and ok1: "no_hard_error fd1" and d1: "delivers fd1 = bs'"
    by auto
  let ?st1 = "st\<lparr>fd_in := fd1\<rparr>"
  let ?buf1 = "tl buf @ [b]"
  have len1: "length ?buf1 = 3" using Suc.prems(2) by simp
  have shift: "ends_with_prompt (buf @ take (Suc j) ?bs) = ends_with_prompt (?buf1 @ take j bs')"
    for j
    using ends_with_prompt_shift [OF Suc.prems(2)] bs by simp
  have a: "ends_with_prompt (?buf1 @ take k (delivers (fd_in ?st1)))"
    using Suc.prems(4) shift d1 by simp
  have b: "\<forall>j<k. \<not> ends_with_prompt (?buf1 @ take j (delivers (fd_in ?st1)))"
    using Suc.prems(5) shift d1 by auto
  have c: "k \<le> length (delivers (fd_in ?st1))" using Suc.prems(3) bs d1 by simp
  from Suc.IH [of ?st1 ?buf1] ok1 len1 a b c obtain fd' where
    "wait_prompt_loop ?buf1 ?st1 = Some (Returns 0 (?st1\<lparr>fd_in := fd'\<rparr>))"
    "no_hard_error fd'" "delivers fd' = drop k (delivers (fd_in ?st1))"
    by auto
  moreover have "wait_prompt_loop buf st = wait_prompt_loop ?buf1 ?st1"
    using Suc.prems(2) nomatch rd by (rule wait_prompt_loop_next)
  ultimately show ?case using bs d1 by auto
qed

lemma wait_prompt_loop_never:
  "no_hard_error (fd_in st) \<Longrightarrow> length buf = 3 \<Longrightarrow> delivers (fd_in st) = bs \<Longrightarrow>
   \<forall>j\<le>length bs. \<not> ends_with_prompt (buf @ take j bs) \<Longrightarrow>
   wait_prompt_loop buf st = None"
proof (induction bs arbitrary: buf st)
  case Nil
  then have nomatch: "buf \<noteq> prompt" by (simp add: ends_with_prompt_three)
  have "serialice_read st 1 = None"
    using Nil.prems by (intro serialice_read_starved) auto
  with Nil.prems(2) nomatch show ?case by (rule wait_prompt_loop_blocked)
next
  case (Cons b bs')
  from Cons.prems(4) have "\<not> ends_with_prompt (buf @ take 0 (b # bs'))" by blast
  with Cons.prems(2) have nomatch: "buf \<noteq> prompt" by (simp add: ends_with_prompt_three)
  from serialice_read_enough [of st 1] Cons.prems obtain fd1 where
    rd: "serialice_read st 1 = Some ([b], st\<lparr>fd_in := fd1\<rparr>)"
    and ok1: "no_hard_error fd1" and d1: "delivers fd1 = bs'"
    by auto
  let ?st1 = "st\<lparr>fd_in := fd1\<rparr>"
  let ?buf1 = "tl buf @ [b]"
  have len1: "length ?buf1 = 3" using Cons.prems(2) by simp
  have "\<forall>j\<le>length bs'. \<not> ends_with_prompt (?buf1 @ take j bs')"
  proof (intro allI impI)
    fix j assume "j \<le> length bs'"
    then have "Suc j \<le> length (b # bs')" by simp
    with Cons.prems(4) have "\<not> ends_with_prompt (buf @ take (Suc j) (b # bs'))" by blast
    then show "\<not> ends_with_prompt (?buf1 @ take j bs')"
      using ends_with_prompt_shift [OF Cons.prems(2)] by simp
  qed
  from Cons.IH [of ?st1 ?buf1, OF _ len1 _ this] ok1 d1
  have "wait_prompt_loop ?buf1 ?st1 = None" by simp
  moreover have "wait_prompt_loop buf st = wait_prompt_loop ?buf1 ?st1"
    using Cons.prems(2) nomatch rd by (rule wait_prompt_loop_next)
  ultimately show ?case by simp
qed

lemma serialice_wait_prompt_first:
  assumes ok: "no_hard_error (fd_in st)"
    and n: "n \<le> length (delivers (fd_in st))"
    and hit: "ends_with_prompt (take n (delivers (fd_in st)))"
    and first: "\<forall>m<n. \<not> ends_with_prompt (take m (delivers (fd_in st)))"
  shows "\<exists>fd'. serialice_wait_prompt st = Some (Returns 0 (st\<lparr>fd_in := fd'\<rparr>))
     \<and> no_hard_error fd' \<and> delivers fd' = drop n (delivers (fd_in st))"
proof -
  let ?bs = "delivers (fd_in st)"
  from hit n have n3: "3 \<le> n" by (simp add: ends_with_prompt_def)
  with n have len: "3 \<le> length ?bs" by simp
  from serialice_read_enough [OF ok len] obtain fd1 where
    rd: "serialice_read st 3 = Some (take 3 ?bs, st\<lparr>fd_in := fd1\<rparr>)"
    and ok1: "no_hard_error fd1" and d1: "delivers fd1 = drop 3 ?bs"
    by blast
  let ?st1 = "st\<lparr>fd_in := fd1\<rparr>"
  let ?buf = "take 3 ?bs"
  have lbuf: "length ?buf = 3" using len by simp
  have split: "?buf @ take j (drop 3 ?bs) = take (3 + j) ?bs" for j
    by (simp add: take_add)
  have a: "ends_with_prompt (?buf @ take (n - 3) (delivers (fd_in ?st1)))"
    using hit n3 d1 split [of "n - 3"] by simp
  have b: "\<forall>j<n - 3. \<not> ends_with_prompt (?buf @ take j (delivers (fd_in ?st1)))"
  proof (intro allI impI)
    fix j assume "j < n - 3"
    then have "3 + j < n" by simp
    with first have "\<not> ends_with_prompt (take (3 + j) ?bs)" by blast
    then show "\<not> ends_with_prompt (?buf @ take j (delivers (fd_in ?st1)))"
      using d1 split [of j] by simp
  qed
  have c: "n - 3 \<le> length (delivers (fd_in ?st1))" using n d1 by simp
  from wait_prompt_loop_returns [of ?st1 ?buf "n - 3"] ok1 lbuf a b c obtain fd' where
    loop: "wait_prompt_loop ?buf ?st1 = Some (Returns 0 (?st1\<lparr>fd_in := fd'\<rparr>))"
    and ok': "no_hard_error fd'" and d': "delivers fd' = drop (n - 3) (delivers (fd_in ?st1))"
    by auto
  have "store_at (case stack st of (a, b, c) \<Rightarrow> [a, b, c]) 0 ?buf = ?buf"
    using lbuf by (simp add: store_at_def split: prod.splits)
  with rd loop have "serialice_wait_prompt st = Some (Returns 0 (st\<lparr>fd_in := fd'\<rparr>))"
    by (simp add: serialice_wait_prompt_def Let_def)
  moreover have "delivers fd' = drop n ?bs" using d' d1 n3 by simp
  ultimately show ?thesis using ok' by blast
qed

lemma serialice_wait_prompt_never:
  assumes ok: "no_hard_error (fd_in st)"
    and none: "\<forall>n\<le>length (delivers (fd_in st)). \<not> ends_with_prompt (take n (delivers (fd_in st)))"
  shows "serialice_wait_prompt st = None"
proof (cases "3 \<le> length (delivers (fd_in st))")
  case False
  then have "serialice_read st 3 = None"
    using ok by (intro serialice_read_starved) auto
  then show ?thesis by (simp add: serialice_wait_prompt_def)
next
  case True
  let ?bs = "delivers (fd_in st)"
  from serialice_read_enough [OF ok True] obtain fd1 where
    rd: "serialice_read st 3 = Some (take 3 ?bs, st\<lparr>fd_in := fd1\<rparr>)"
    and ok1: "no_hard_error fd1" and d1: "delivers fd1 = drop 3 ?bs"
    by blast
  let ?st1 = "st\<lparr>fd_in := fd1\<rparr>"
  let ?buf = "take 3 ?bs"
  have lbuf: "length ?buf = 3" using True by simp
  have "\<forall>j\<le>length (drop 3 ?bs). \<not> ends_with_prompt (?buf @ take j (drop 3 ?bs))"
  proof (intro allI impI)
    fix j assume "j \<le> length (drop 3 ?bs)"
    then have "3 + j \<le> length ?bs" using True by simp
    with none have "\<not> ends_with_prompt (take (3 + j) ?bs)" by blast
    then show "\<not> ends_with_prompt (?buf @ take j (drop 3 ?bs))" by (simp add: take_add)
  qed
  from wait_prompt_loop_never [of ?st1 ?buf "drop 3 ?bs", OF _ lbuf _ this] ok1 d1
  have loop: "wait_prompt_loop ?buf ?st1 = None" by simp
  have "store_at (case stack st of (a, b, c) \<Rightarrow> [a, b, c]) 0 ?buf = ?buf"
    using lbuf by (simp add: store_at_def split: prod.splits)
  with rd loop show ?thesis by (simp add: serialice_wait_prompt_def Let_def)
qed

text \<open>
  C6. On a line on which no \<^verbatim>\<open>read\<close> fails with an \<^verbatim>\<open>errno\<close> other than
  \<^verbatim>\<open>EINTR\<close>, whatever the bursts in which the bytes arrive:
  when \<^verbatim>\<open>serialice_wait_prompt\<close> returns, it returns 0, the bytes it consumed end with
  the three bytes of the prompt and no shorter run of consumed bytes does; and it
  returns if and only if some run of bytes from the start of the input ends with the
  prompt. Otherwise it reads on for ever.
\<close>

theorem C6_wait_prompt:
  assumes "no_hard_error (fd_in st)"
  shows
   "(\<forall>r. serialice_wait_prompt st = Some r \<longrightarrow>
       (\<exists>n fd'. r = Returns 0 (st\<lparr>fd_in := fd'\<rparr>)
          \<and> n \<le> length (delivers (fd_in st))
          \<and> delivers fd' = drop n (delivers (fd_in st))
          \<and> ends_with_prompt (take n (delivers (fd_in st)))
          \<and> (\<forall>m<n. \<not> ends_with_prompt (take m (delivers (fd_in st))))))
  \<and> ((\<exists>n\<le>length (delivers (fd_in st)). ends_with_prompt (take n (delivers (fd_in st))))
       = (serialice_wait_prompt st \<noteq> None))"
proof -
  let ?bs = "delivers (fd_in st)"
  let ?hit = "\<lambda>n. n \<le> length ?bs \<and> ends_with_prompt (take n ?bs)"
  have returns: "\<exists>n fd'. serialice_wait_prompt st = Some (Returns 0 (st\<lparr>fd_in := fd'\<rparr>))
          \<and> n \<le> length ?bs \<and> delivers fd' = drop n ?bs
          \<and> ends_with_prompt (take n ?bs) \<and> (\<forall>m<n. \<not> ends_with_prompt (take m ?bs))"
    if ex: "\<exists>n. ?hit n"
  proof -
    define n where "n = (LEAST n. ?hit n)"
    from ex have hit: "?hit n" unfolding n_def by (rule LeastI_ex)
    have first: "\<forall>m<n. \<not> ends_with_prompt (take m ?bs)"
    proof (intro allI impI)
      fix m assume "m < n"
      then have "\<not> ?hit m" unfolding n_def by (rule not_less_Least)
      moreover from \<open>m < n\<close> hit have "m \<le> length ?bs" by simp
      ultimately show "\<not> ends_with_prompt (take m ?bs)" by simp
    qed
    from serialice_wait_prompt_first [OF assms _ _ first, of ] hit obtain fd' where
      "serialice_wait_prompt st = Some (Returns 0 (st\<lparr>fd_in := fd'\<rparr>))"
      "delivers fd' = drop n ?bs"
      by blast
    with hit first show ?thesis by blast
  qed
  have never: "serialice_wait_prompt st = None" if "\<not> (\<exists>n. ?hit n)"
    using that by (intro serialice_wait_prompt_never [OF assms]) blast
  show ?thesis
  proof (intro conjI allI impI)
    fix r assume r: "serialice_wait_prompt st = Some r"
    then have "\<exists>n. ?hit n" using never by fastforce
    from returns [OF this] r
    show "\<exists>n fd'. r = Returns 0 (st\<lparr>fd_in := fd'\<rparr>) \<and> n \<le> length ?bs
          \<and> delivers fd' = drop n ?bs
          \<and> ends_with_prompt (take n ?bs) \<and> (\<forall>m<n. \<not> ends_with_prompt (take m ?bs))"
      by auto
  next
    show "(\<exists>n\<le>length ?bs. ends_with_prompt (take n ?bs)) = (serialice_wait_prompt st \<noteq> None)"
      using returns never by (cases "\<exists>n. ?hit n") auto
  qed
qed

theorem C6_wait_prompt_witness:
  "no_hard_error [Data ''ab'', Fail EINTR, Data (''c'' @ prompt @ ''x'')]
   \<and> serialice_wait_prompt
        (initial_state [Data ''ab'', Fail EINTR, Data (''c'' @ prompt @ ''x'')]
           (CHR ''?'', CHR ''?'', CHR ''?''))
      = Some (Returns 0 (initial_state [Data ''x''] (CHR ''?'', CHR ''?'', CHR ''?'')))
   \<and> serialice_wait_prompt (initial_state [Data ''> '', Data ''>''] (CHR ''?'', CHR ''?'', CHR ''?''))
      = None"
proof -
  let ?st = "initial_state [Data ''ab'', Fail EINTR, Data (''c'' @ prompt @ ''x'')]
           (CHR ''?'', CHR ''?'', CHR ''?'')"
  let ?st2 = "initial_state [Data ''> '', Data ''>''] (CHR ''?'', CHR ''?'', CHR ''?'')"
  have ok: "no_hard_error (fd_in ?st)" and ok2: "no_hard_error (fd_in ?st2)"
    by (simp_all add: initial_state_def)
  have "\<not> (\<exists>n\<le>length (delivers (fd_in ?st2)).
           ends_with_prompt (take n (delivers (fd_in ?st2))))"
    by (simp add: initial_state_def ends_with_prompt_def prompt_def less_Suc_eq_le
        le_Suc_eq take_Suc_Cons all_conj_distrib)
  with C6_wait_prompt [OF ok2] have "serialice_wait_prompt ?st2 = None" by simp
  moreover have "serialice_wait_prompt ?st
      = Some (Returns 0 (initial_state [Data ''x''] (CHR ''?'', CHR ''?'', CHR ''?'')))"
    by (simp add: serialice_wait_prompt_def serialice_read_def serialice_read_loop.simps
        wait_prompt_loop.simps initial_state_def store_at_def prompt_def)
  ultimately show ?thesis using ok by (simp add: initial_state_def)
qed


section \<open>Properties of the number formats\<close>

lemma hex_digits_length: "n < 16 ^ k \<Longrightarrow> 0 < k \<Longrightarrow> length (hex_digits n) \<le> k"
proof (induction n arbitrary: k rule: hex_digits.induct)
  case (1 n)
  show ?case
  proof (cases "n < 16")
    case True
    with "1.prems" show ?thesis by (subst hex_digits.simps) (simp add: Suc_leI)
  next
    case False
    with "1.prems" obtain k' where k: "k = Suc k'" by (cases k) auto
    with False "1.prems" have "0 < k'" by (cases k') auto
    moreover from k "1.prems" have "n div 16 < 16 ^ k'"
      by (simp add: less_mult_imp_div_less mult.commute)
    ultimately have "length (hex_digits (n div 16)) \<le> k'"
      using "1.IH" False by simp
    with False k show ?thesis by (subst hex_digits.simps) simp
  qed
qed

lemma printf_0x_length: "n < 16 ^ k \<Longrightarrow> 0 < k \<Longrightarrow> length (printf_0x k n) = k"
  using hex_digits_length [of n k] by (simp add: printf_0x_def)

lemma below_16:
  "d < 16 \<Longrightarrow> d \<in> {0, 1, 2, 3, 4, 5, 6, 7, 8, 9, 10, 11, 12, 13, 14, 15 :: nat}"
  by (simp only: insert_iff empty_iff) arith

lemma hex_digit_facts:
  assumes "d < 16"
  shows "digit_val (hex_digit d) = Some d" and "\<not> isspace (hex_digit d)"
    and "hex_digit d \<notin> {CHR ''-'', CHR ''+'', CHR ''x'', CHR ''X'', CHR 0x00, CHR 0x0D}"
  using below_16 [OF assms]
  by (auto simp: hex_digit_def digit_val_def isspace_def)

lemma hexchar_facts:
  assumes "hexchar c"
  shows "digit_val c \<noteq> None" and "\<not> isspace c"
    and "c \<noteq> CHR ''-''" "c \<noteq> CHR ''+''" "c \<noteq> CHR ''x''" "c \<noteq> CHR ''X''"
    and "c \<noteq> CHR 0x00" "c \<noteq> CHR 0x0D"
  using assms hex_digit_facts unfolding hexchar_def by auto

lemma hexchar_hex_digits: "c \<in> set (hex_digits n) \<Longrightarrow> hexchar c"
proof (induction n rule: hex_digits.induct)
  case (1 n)
  show ?case
  proof (cases "n < 16")
    case True
    with "1.prems" show ?thesis by (subst (asm) hex_digits.simps) (auto simp: hexchar_def)
  next
    case False
    with "1.prems" have "c \<in> set (hex_digits (n div 16)) \<or> c = hex_digit (n mod 16)"
      by (subst (asm) hex_digits.simps) auto
    then show ?thesis
      using "1.IH" False by (auto simp: hexchar_def intro: exI [of _ "n mod 16"])
  qed
qed

lemma hexchar_printf_0x: "c \<in> set (printf_0x k n) \<Longrightarrow> hexchar c"
proof -
  have "hexchar (CHR ''0'')"
    unfolding hexchar_def by (rule exI [of _ 0]) (simp add: hex_digit_def)
  then show "c \<in> set (printf_0x k n) \<Longrightarrow> hexchar c"
    by (auto simp: printf_0x_def dest: hexchar_hex_digits)
qed

lemma strtoul_digits_hex_digits:
  "strtoul_digits acc (hex_digits n @ r) = strtoul_digits (acc * 16 ^ length (hex_digits n) + n) r"
proof (induction n arbitrary: acc r rule: hex_digits.induct)
  case (1 n)
  show ?case
  proof (cases "n < 16")
    case True
    then show ?thesis by (subst (1 2) hex_digits.simps) (simp add: hex_digit_facts)
  next
    case False
    have "strtoul_digits acc (hex_digits n @ r)
        = strtoul_digits acc (hex_digits (n div 16) @ hex_digit (n mod 16) # r)"
      using False by (subst hex_digits.simps) simp
    also have "\<dots> = strtoul_digits (acc * 16 ^ length (hex_digits (n div 16)) + n div 16)
        (hex_digit (n mod 16) # r)"
      using "1.IH" False by simp
    also have "\<dots> = strtoul_digits
        ((acc * 16 ^ length (hex_digits (n div 16)) + n div 16) * 16 + n mod 16) r"
      by (simp add: hex_digit_facts)
    also have "(acc * 16 ^ length (hex_digits (n div 16)) + n div 16) * 16 + n mod 16
        = acc * 16 ^ length (hex_digits n) + n"
      using False by (subst (2) hex_digits.simps) (simp add: algebra_simps)
    finally show ?thesis .
  qed
qed

lemma strtoul_digits_zeros:
  "strtoul_digits acc (replicate k (CHR ''0'') @ r) = strtoul_digits (acc * 16 ^ k) r"
proof (induction k arbitrary: acc)
  case 0
  then show ?case by simp
next
  case (Suc k)
  have "digit_val (CHR ''0'') = Some 0" by (simp add: digit_val_def)
  then show ?case using Suc [of "acc * 16"] by (simp add: algebra_simps)
qed

lemma strtoul_digits_printf_0x: "strtoul_digits 0 (printf_0x k n) = n"
  using strtoul_digits_zeros [of 0 "k - length (hex_digits n)" "hex_digits n"]
    strtoul_digits_hex_digits [of 0 n "[]"]
  by (simp add: printf_0x_def)

lemma strtoul_hexchars:
  assumes "ds \<noteq> []" and "\<forall>c\<in>set ds. hexchar c"
  shows "strtoul ds =
    (if strtoul_digits 0 ds > 2 ^ 64 - 1 then - 1 else of_nat (strtoul_digits 0 ds))"
proof -
  from assms obtain a t where ds: "ds = a # t" by (cases ds) auto
  with assms have a: "hexchar a" by simp
  have s1: "dropWhile isspace ds = ds" using ds hexchar_facts [OF a] by simp
  show ?thesis
  proof (cases t)
    case Nil
    with ds s1 hexchar_facts [OF a] show ?thesis by (simp add: strtoul_def)
  next
    case (Cons b t')
    with ds assms have b: "hexchar b" by simp
    show ?thesis
      using ds Cons s1 hexchar_facts [OF a] hexchar_facts [OF b]
      by (cases t') (simp_all add: strtoul_def)
  qed
qed

lemma strtoul_printf_0x:
  assumes "n < 16 ^ k" and "0 < k" and "n < 2 ^ 64"
  shows "strtoul (printf_0x k n) = of_nat n"
proof -
  have "printf_0x k n \<noteq> []" using printf_0x_length [OF assms(1,2)] assms(2) by auto
  moreover have "\<forall>c\<in>set (printf_0x k n). hexchar c" using hexchar_printf_0x by blast
  ultimately show ?thesis
    using assms(3) by (simp add: strtoul_hexchars strtoul_digits_printf_0x)
qed

lemma cstring_hexchars:
  assumes "\<forall>c\<in>set ds. hexchar c"
  shows "cstring (ds @ CHR 0x00 # rest) = ds"
  using assms hexchar_facts(7) by (auto simp: cstring_def takeWhile_append2)


section \<open>Properties of the command codec\<close>

lemma drop_memset: "drop n (memset buf c (Suc n)) = c # drop (Suc n) buf"
proof -
  have "replicate (Suc n) c = replicate n c @ [c]" by (simp add: replicate_append_same)
  then have "memset buf c (Suc n) = replicate n c @ c # drop (Suc n) buf"
    by (simp only: memset_def) simp
  then show ?thesis by simp
qed

lemma serialice_command_answered:
  assumes ok: "no_hard_error (fd_in st)"
    and script: "delivers (fd_in st) = prompt @ e @ reply @ rest"
    and echo: "length e = length cmd"
    and reply: "reply \<noteq> []" "hd reply \<noteq> CHR 0x0D"
  shows "\<exists>st'. serialice_command cmd (length reply) st = Some (Returns () st')
     \<and> buffer st' = reply @ CHR 0x00 # drop (length reply + 1) (buffer st)
     \<and> no_hard_error (fd_in st') \<and> delivers (fd_in st') = rest
     \<and> fd_out st' = fd_out st @ cmd"
proof -
  let ?bs = "delivers (fd_in st)"
  have "ends_with_prompt (take 3 ?bs)" and "\<forall>m<3. \<not> ends_with_prompt (take m ?bs)"
    and "3 \<le> length ?bs"
    using script by (simp_all add: ends_with_prompt_def prompt_def)
  from serialice_wait_prompt_first [OF ok this(3) this(1) this(2)] obtain fd1 where
    wait: "serialice_wait_prompt st = Some (Returns 0 (st\<lparr>fd_in := fd1\<rparr>))"
    and ok1: "no_hard_error fd1" and d1: "delivers fd1 = e @ reply @ rest"
    using script by (auto simp: prompt_def)
  let ?st1 = "st\<lparr>fd_in := fd1\<rparr>"
  from serialice_write_echoed [of ?st1 e "reply @ rest" cmd] ok1 d1 echo obtain st2 where
    wr: "serialice_write ?st1 cmd = Some st2" and ok2: "no_hard_error (fd_in st2)"
    and d2: "delivers (fd_in st2) = reply @ rest" and out2: "fd_out st2 = fd_out st @ cmd"
    and buf2: "buffer st2 = buffer st"
    by auto
  let ?st3 = "st2\<lparr>buffer := memset (buffer st2) (CHR 0x00) (length reply + 1)\<rparr>"
  from serialice_read_enough [of ?st3 "length reply"] ok2 d2 obtain fd4 where
    rd: "serialice_read ?st3 (length reply) = Some (reply, ?st3\<lparr>fd_in := fd4\<rparr>)"
    and ok4: "no_hard_error fd4" and d4: "delivers fd4 = rest"
    by auto
  let ?st5 = "?st3\<lparr>fd_in := fd4, buffer := store_at (buffer ?st3) 0 reply\<rparr>"
  have buf5: "buffer ?st5 = reply @ CHR 0x00 # drop (length reply + 1) (buffer st)"
    using buf2 by (simp add: store_at_def drop_memset)
  then have first: "buffer ?st5 ! 0 \<noteq> CHR 0x0D"
    using reply by (cases reply) auto
  have "serialice_command cmd (length reply) st = Some (Returns () ?st5)"
    using wait wr rd first
    by (simp add: serialice_command_def and_then_def Let_def)
  then show ?thesis
    using buf5 ok4 d4 out2 by (intro exI [of _ ?st5]) simp
qed

lemma sixteen_power: "(16 :: nat) ^ (2 * w) = 2 ^ (8 * w)"
proof -
  have "(16 :: nat) = 2 ^ 4" by simp
  then have "(16 :: nat) ^ (2 * w) = (2 ^ 4) ^ (2 * w)" by simp
  also have "\<dots> = 2 ^ (4 * (2 * w))" by (simp only: power_mult)
  finally show ?thesis by simp
qed

lemma read_exchange:
  assumes ok: "no_hard_error (fd_in st)"
    and script: "delivers (fd_in st) = prompt @ e @ reply_for w v @ rest"
    and echo: "length e = length cmd"
    and w: "0 < w" "w \<le> 8"
  shows "\<exists>st'. serialice_command cmd (2 * w + 1) st = Some (Returns () st')
     \<and> reply_value st' = of_nat (v mod 2 ^ (8 * w))
     \<and> no_hard_error (fd_in st') \<and> delivers (fd_in st') = rest
     \<and> fd_out st' = fd_out st @ cmd"
proof -
  let ?n = "v mod 2 ^ (8 * w)"
  let ?ds = "printf_0x (2 * w) ?n"
  have small: "?n < 16 ^ (2 * w)" by (simp add: sixteen_power)
  have "(2 :: nat) ^ (8 * w) \<le> 2 ^ 64" using w by (intro power_increasing) simp_all
  moreover have "?n < 2 ^ (8 * w)" by simp
  ultimately have n64: "?n < 2 ^ 64" by (rule less_le_trans [rotated])
  have len: "length ?ds = 2 * w" using small w by (simp add: printf_0x_length)
  then have rlen: "length (reply_for w v) = 2 * w + 1" by (simp add: reply_for_def)
  have "reply_for w v \<noteq> []" "hd (reply_for w v) \<noteq> CHR 0x0D" by (simp_all add: reply_for_def)
  from serialice_command_answered [OF ok script echo this] rlen obtain st' where
    cmd: "serialice_command cmd (2 * w + 1) st = Some (Returns () st')"
    and buf: "buffer st' = reply_for w v @ CHR 0x00 # drop (2 * w + 1 + 1) (buffer st)"
    and rest: "no_hard_error (fd_in st')" "delivers (fd_in st') = rest"
      "fd_out st' = fd_out st @ cmd"
    by auto
  have "cstring (drop 1 (buffer st')) = ?ds"
    using buf hexchar_printf_0x by (simp add: reply_for_def cstring_hexchars)
  then have "reply_value st' = of_nat ?n"
    using small w n64 by (simp add: reply_value_def strtoul_printf_0x)
  with cmd rest show ?thesis by blast
qed

lemma narrow_of_nat:
  assumes "n < 2 ^ LENGTH('a::len)" and "LENGTH('a) \<le> 64"
  shows "(ucast (ucast (of_nat n :: 64 word) :: 'a word) :: 64 word) = of_nat n"
proof -
  have "take_bit LENGTH('a) n = n" using assms(1) by (simp add: take_bit_nat_eq_self)
  moreover have "take_bit 64 n = n"
  proof -
    have "(2 :: nat) ^ LENGTH('a) \<le> 2 ^ 64" using assms(2) by (intro power_increasing) simp_all
    with assms(1) have "n < 2 ^ 64" by simp
    then show ?thesis by (simp add: take_bit_nat_eq_self)
  qed
  ultimately show ?thesis
    by (simp add: unsigned_of_nat unsigned_ucast_eq take_bit_of_nat)
qed

lemma io_read_command_length:
  "length (''*ri'' @ printf_0x 4 (unat (port :: 16 word)) @ [CHR ''.'', c]) = 9"
proof -
  have "unat port < 2 ^ 16" using unsigned_less [of port] by simp
  then have "unat port < 16 ^ 4" by simp
  then show ?thesis by (simp add: printf_0x_length)
qed

lemma load_command_length:
  "length (''*rm'' @ printf_0x 8 (unat (addr :: 32 word)) @ [CHR ''.'', c]) = 13"
proof -
  have "unat addr < 2 ^ 32" using unsigned_less [of addr] by simp
  then have "unat addr < 16 ^ 8" by simp
  then show ?thesis by (simp add: printf_0x_length)
qed

lemma msg_io_read_roundtrip:
  assumes ok: "no_hard_error (fd_in st)"
    and script: "delivers (fd_in st) = prompt @ e @ reply_for w v @ rest"
    and echo: "length e = 9"
    and w: "w = 1 \<or> w = 2 \<or> w = 4"
  shows "\<exists>st'. msg_io_read port (of_nat w) st = Some (Returns (of_nat (v mod 2 ^ (8 * w))) st')
     \<and> delivers (fd_in st') = rest
     \<and> fd_out st' = fd_out st @ ''*ri'' @ printf_0x 4 (unat port) @ [CHR ''.'', width_letter w]"
proof -
  let ?cmd = "''*ri'' @ printf_0x 4 (unat port) @ [CHR ''.'', width_letter w]"
  let ?st0 = "st\<lparr>command := ?cmd\<rparr>"
  have "length e = length ?cmd" using echo io_read_command_length by simp
  from read_exchange [of ?st0 e w v rest ?cmd] ok script this w obtain st' where
    cmd: "serialice_command ?cmd (2 * w + 1) ?st0 = Some (Returns () st')"
    and val: "reply_value st' = of_nat (v mod 2 ^ (8 * w))"
    and rest: "delivers (fd_in st') = rest" "fd_out st' = fd_out st @ ?cmd"
    by auto
  have "msg_io_read port (of_nat w) st = Some (Returns (of_nat (v mod 2 ^ (8 * w))) st')"
    using w
  proof (elim disjE)
    assume "w = 1"
    moreover have "(ucast (ucast (of_nat (v mod 2 ^ 8) :: 64 word) :: 8 word) :: 64 word)
        = of_nat (v mod 2 ^ 8)"
      by (rule narrow_of_nat) simp_all
    ultimately show ?thesis
      using cmd val by (simp add: msg_io_read_def and_then_def width_letter_def)
  next
    assume "w = 2"
    moreover have "(ucast (ucast (of_nat (v mod 2 ^ 16) :: 64 word) :: 16 word) :: 64 word)
        = of_nat (v mod 2 ^ 16)"
      by (rule narrow_of_nat) simp_all
    ultimately show ?thesis
      using cmd val by (simp add: msg_io_read_def and_then_def width_letter_def)
  next
    assume "w = 4"
    then show ?thesis
      using cmd val by (simp add: msg_io_read_def and_then_def width_letter_def)
  qed
  with rest show ?thesis by blast
qed

lemma msg_load_roundtrip:
  assumes ok: "no_hard_error (fd_in st)"
    and script: "delivers (fd_in st) = prompt @ e @ reply_for w v @ rest"
    and echo: "length e = 13"
    and w: "w = 1 \<or> w = 2 \<or> w = 4 \<or> w = 8"
  shows "\<exists>st'. msg_load addr (of_nat w) st = Some (Returns (of_nat (v mod 2 ^ (8 * w))) st')
     \<and> delivers (fd_in st') = rest
     \<and> fd_out st' = fd_out st @ ''*rm'' @ printf_0x 8 (unat addr) @ [CHR ''.'', width_letter w]"
proof -
  let ?cmd = "''*rm'' @ printf_0x 8 (unat addr) @ [CHR ''.'', width_letter w]"
  let ?st0 = "st\<lparr>command := ?cmd\<rparr>"
  have "length e = length ?cmd" using echo load_command_length by simp
  from read_exchange [of ?st0 e w v rest ?cmd] ok script this w obtain st' where
    cmd: "serialice_command ?cmd (2 * w + 1) ?st0 = Some (Returns () st')"
    and val: "reply_value st' = of_nat (v mod 2 ^ (8 * w))"
    and rest: "delivers (fd_in st') = rest" "fd_out st' = fd_out st @ ?cmd"
    by auto
  have "msg_load addr (of_nat w) st = Some (Returns (of_nat (v mod 2 ^ (8 * w))) st')"
    using w
  proof (elim disjE)
    assume "w = 1"
    moreover have "(ucast (ucast (of_nat (v mod 2 ^ 8) :: 64 word) :: 8 word) :: 64 word)
        = of_nat (v mod 2 ^ 8)"
      by (rule narrow_of_nat) simp_all
    ultimately show ?thesis
      using cmd val by (simp add: msg_load_def and_then_def width_letter_def)
  next
    assume "w = 2"
    moreover have "(ucast (ucast (of_nat (v mod 2 ^ 16) :: 64 word) :: 16 word) :: 64 word)
        = of_nat (v mod 2 ^ 16)"
      by (rule narrow_of_nat) simp_all
    ultimately show ?thesis
      using cmd val by (simp add: msg_load_def and_then_def width_letter_def)
  next
    assume "w = 4"
    moreover have "(ucast (ucast (of_nat (v mod 2 ^ 32) :: 64 word) :: 32 word) :: 64 word)
        = of_nat (v mod 2 ^ 32)"
      by (rule narrow_of_nat) simp_all
    ultimately show ?thesis
      using cmd val by (simp add: msg_load_def and_then_def width_letter_def)
  next
    assume "w = 8"
    then show ?thesis
      using cmd val by (simp add: msg_load_def and_then_def width_letter_def)
  qed
  with rest show ?thesis by blast
qed


lemma serialice_read_loop_bytes:
  assumes "serialice_read_loop n acc fd = Some y"
  shows "set (fst y) \<subseteq> set acc \<union> set (delivers fd)
     \<and> set (delivers (snd y)) \<subseteq> set (delivers fd)"
proof (rule serialice_read_loop.raw_induct
    [where P = "\<lambda>n acc fd y. set (fst y) \<subseteq> set acc \<union> set (delivers fd)
       \<and> set (delivers (snd y)) \<subseteq> set (delivers fd)", OF _ assms], goal_cases)
  case (1 loop n acc fd y)
  show ?case
  proof (cases fd)
    case Nil
    with 1 show ?thesis by (fastforce split: if_splits)
  next
    case (Cons ev fd1)
    show ?thesis
    proof (cases ev)
      case (Fail e)
      with 1 Cons show ?thesis by (fastforce split: if_splits)
    next
      case (Data bs)
      let ?c = "n - length acc"
      let ?fd' = "if drop ?c bs = [] then fd1 else Data (drop ?c bs) # fd1"
      have d: "set (delivers ?fd') \<subseteq> set bs \<union> set (delivers fd1)"
        by (auto dest: in_set_dropD)
      have t: "set (take ?c bs) \<subseteq> set bs" by (rule set_take_subset)
      show ?thesis
      proof (cases "int n \<le> int (length (acc @ take ?c bs))")
        case True
        with 1(2) Cons Data have "y = (acc @ take ?c bs, ?fd')" by (simp split: if_splits)
        with d t Cons Data show ?thesis by auto
      next
        case False
        with 1(2) Cons Data have "loop n (acc @ take ?c bs) ?fd' = Some y"
          by (simp split: if_splits)
        from 1(1) [OF this] d t Cons Data show ?thesis by auto
      qed
    qed
  qed
qed

lemma serialice_read_bytes:
  assumes "serialice_read st n = Some (got, st')"
  shows "set got \<subseteq> set (delivers (fd_in st))"
    and "set (delivers (fd_in st')) \<subseteq> set (delivers (fd_in st))"
    and "buffer st' = buffer st" and "printed st' = printed st"
  using assms serialice_read_loop_bytes [of n "[]" "fd_in st"]
  by (auto simp: serialice_read_def split: option.splits)

lemma read_echo_bytes:
  assumes "read_echo fd = Some y"
  shows "set (delivers (snd y)) \<subseteq> set (delivers fd)"
proof (rule read_echo.raw_induct
    [where P = "\<lambda>fd y. set (delivers (snd y)) \<subseteq> set (delivers fd)", OF _ assms], goal_cases)
  case (1 loop fd y)
  show ?case
  proof (cases fd)
    case Nil
    with 1 show ?thesis by (fastforce split: if_splits)
  next
    case (Cons ev fd1)
    show ?thesis
    proof (cases ev)
      case (Fail e)
      with 1 Cons show ?thesis by (fastforce split: if_splits)
    next
      case (Data bs)
      let ?fd' = "if drop 1 bs = [] then fd1 else Data (drop 1 bs) # fd1"
      have d: "set (delivers ?fd') \<subseteq> set bs \<union> set (delivers fd1)"
        by (auto dest: in_set_dropD)
      show ?thesis
      proof (cases "length (take 1 bs) = 1")
        case True
        with 1(2) Cons Data have "snd y = ?fd'" by (auto split: if_splits)
        with d Cons Data show ?thesis by auto
      next
        case False
        with 1(2) Cons Data have "loop ?fd' = Some y" by (simp split: if_splits)
        from 1(1) [OF this] d Cons Data show ?thesis by auto
      qed
    qed
  qed
qed

lemma serialice_write_bytes:
  "serialice_write st cmd = Some st' \<Longrightarrow>
   set (delivers (fd_in st')) \<subseteq> set (delivers (fd_in st)) \<and> buffer st' = buffer st"
proof (induction cmd arbitrary: st)
  case Nil
  then show ?case by simp
next
  case (Cons b cmd)
  from Cons.prems obtain c fd' where echo: "read_echo (fd_in st) = Some (c, fd')"
    by (auto simp: Let_def split: option.splits)
  let ?st2 = "st\<lparr>fd_out := fd_out st @ [b], fd_in := fd'\<rparr>"
  let ?st3 = "if c \<noteq> b \<and> \<not> handshake_mode ?st2
              then ?st2\<lparr>printed := printed ?st2 @ [Readback_error c b]\<rparr> else ?st2"
  from Cons.prems echo have "serialice_write ?st3 cmd = Some st'"
    by (simp add: Let_def)
  from Cons.IH [OF this] read_echo_bytes [OF echo] show ?case
    by (auto split: if_splits)
qed

lemma wait_prompt_loop_bytes:
  assumes "wait_prompt_loop buf st = Some y"
  shows "\<forall>r st'. y = Returns r st' \<longrightarrow>
    set (delivers (fd_in st')) \<subseteq> set (delivers (fd_in st))"
proof (rule wait_prompt_loop.raw_induct
    [where P = "\<lambda>buf st y. \<forall>r st'. y = Returns r st' \<longrightarrow>
       set (delivers (fd_in st')) \<subseteq> set (delivers (fd_in st))", OF _ assms], goal_cases)
  case (1 loop buf st y)
  show ?case
  proof (cases "buf ! 0 \<noteq> CHR 0x0A \<or> buf ! 1 \<noteq> CHR ''>'' \<or> buf ! 2 \<noteq> CHR '' ''")
    case False
    with 1(2) show ?thesis by auto
  next
    case True
    with 1(2) obtain got st1 where rd: "serialice_read st 1 = Some (got, st1)"
      by (auto simp: Let_def split: option.splits)
    with True 1(2) have
      "loop (store_at (buf[0 := buf ! 1, 1 := buf ! 2]) 2 got) st1 = Some y"
      by (auto simp: Let_def)
    from 1(1) [OF this] serialice_read_bytes(2) [OF rd] show ?thesis by blast
  qed
qed

lemma serialice_wait_prompt_bytes:
  assumes "serialice_wait_prompt st = Some (Returns r st')"
  shows "set (delivers (fd_in st')) \<subseteq> set (delivers (fd_in st))"
proof -
  from assms obtain got st1 where rd: "serialice_read st 3 = Some (got, st1)"
    by (auto simp: serialice_wait_prompt_def Let_def split: option.splits)
  with assms obtain buf where "wait_prompt_loop buf st1 = Some (Returns r st')"
    by (auto simp: serialice_wait_prompt_def Let_def)
  from wait_prompt_loop_bytes [OF this] serialice_read_bytes(2) [OF rd] show ?thesis by blast
qed



text \<open>
  C2. On a line without hard read errors that delivers the prompt, one echo for each
  byte of the command and the reply the protocol fixes for the value \<open>v\<close> (a newline
  and \<open>2 * w\<close> lowercase zero-padded hexadecimal digits), \<^verbatim>\<open>msg_io_read\<close>
  (\<open>w\<close> in 1, 2, 4) and \<^verbatim>\<open>msg_load\<close> (\<open>w\<close> in 1, 2, 4, 8) send the encoded read
  command and return exactly \<open>v mod 2 ^ (8 * w)\<close>.
\<close>

theorem C2_read_roundtrip:
  assumes "no_hard_error (fd_in st)"
    and "delivers (fd_in st) = prompt @ e @ reply_for w v @ rest"
  shows
   "(w \<in> {1, 2, 4} \<and> length e = 9 \<longrightarrow>
      (\<exists>st'. msg_io_read port (of_nat w) st = Some (Returns (of_nat (v mod 2 ^ (8 * w))) st')
         \<and> delivers (fd_in st') = rest
         \<and> fd_out st' = fd_out st
              @ ''*ri'' @ printf_0x 4 (unat port) @ [CHR ''.'', width_letter w]))
  \<and> (w \<in> {1, 2, 4, 8} \<and> length e = 13 \<longrightarrow>
      (\<exists>st'. msg_load addr (of_nat w) st = Some (Returns (of_nat (v mod 2 ^ (8 * w))) st')
         \<and> delivers (fd_in st') = rest
         \<and> fd_out st' = fd_out st
              @ ''*rm'' @ printf_0x 8 (unat addr) @ [CHR ''.'', width_letter w]))"
  using msg_io_read_roundtrip [OF assms, of port] msg_load_roundtrip [OF assms, of addr]
  by simp

theorem C2_read_roundtrip_witness:
  "(\<exists>st'. msg_io_read 0x80 1
        (initial_state [Data (prompt @ ''*ri0080.b''), Data (reply_for 1 0x17f @ prompt)]
           (CHR ''?'', CHR ''?'', CHR ''?''))
      = Some (Returns 0x7f st') \<and> delivers (fd_in st') = prompt \<and> fd_out st' = ''*ri0080.b'')
   \<and> (\<exists>st'. msg_load 0x80 8
        (initial_state [Data prompt, Data ''*rm'', Fail EINTR,
            Data (''00000080.q'' @ reply_for 8 0x0123456789abcdef)]
           (CHR ''?'', CHR ''?'', CHR ''?''))
      = Some (Returns 0x0123456789abcdef st'))"
proof -
  let ?st = "initial_state [Data (prompt @ ''*ri0080.b''), Data (reply_for 1 0x17f @ prompt)]
           (CHR ''?'', CHR ''?'', CHR ''?'')"
  let ?st2 = "initial_state [Data prompt, Data ''*rm'', Fail EINTR,
            Data (''00000080.q'' @ reply_for 8 0x0123456789abcdef)]
           (CHR ''?'', CHR ''?'', CHR ''?'')"
  have ok: "no_hard_error (fd_in ?st)" and ok2: "no_hard_error (fd_in ?st2)"
    by (simp_all add: initial_state_def)
  have d: "delivers (fd_in ?st) = prompt @ ''*ri0080.b'' @ reply_for 1 0x17f @ prompt"
    by (simp add: initial_state_def)
  have d2: "delivers (fd_in ?st2)
      = prompt @ ''*rm00000080.q'' @ reply_for 8 0x0123456789abcdef @ []"
    by (simp add: initial_state_def)
  have hex: "printf_0x 4 128 = ''0080''" and hex2: "printf_0x 8 128 = ''00000080''"
    by code_simp+
  from C2_read_roundtrip [OF ok d, of "0x80"] obtain s1 where
    "msg_io_read 0x80 1 ?st = Some (Returns 0x7f s1)" "delivers (fd_in s1) = prompt"
    "fd_out s1 = ''*ri0080.b''"
    by (auto simp add: hex width_letter_def initial_state_def)
  moreover from C2_read_roundtrip [OF ok2 d2, of _ "0x80"] obtain s2 where
    "msg_load 0x80 8 ?st2 = Some (Returns 0x0123456789abcdef s2)"
    by (auto simp add: hex2 width_letter_def initial_state_def)
  ultimately show ?thesis by blast
qed

lemma serialice_command_starved:
  assumes ok: "no_hard_error (fd_in st)"
    and script: "delivers (fd_in st) = prompt @ e @ short"
    and echo: "length e = length cmd"
    and short: "length short < reply_len"
  shows "serialice_command cmd reply_len st = None"
proof -
  let ?bs = "delivers (fd_in st)"
  have "ends_with_prompt (take 3 ?bs)" and "\<forall>m<3. \<not> ends_with_prompt (take m ?bs)"
    and "3 \<le> length ?bs"
    using script by (simp_all add: ends_with_prompt_def prompt_def)
  from serialice_wait_prompt_first [OF ok this(3) this(1) this(2)] obtain fd1 where
    wait: "serialice_wait_prompt st = Some (Returns 0 (st\<lparr>fd_in := fd1\<rparr>))"
    and ok1: "no_hard_error fd1" and d1: "delivers fd1 = e @ short"
    using script by (auto simp: prompt_def)
  let ?st1 = "st\<lparr>fd_in := fd1\<rparr>"
  from serialice_write_echoed [of ?st1 e short cmd] ok1 d1 echo obtain st2 where
    wr: "serialice_write ?st1 cmd = Some st2" and ok2: "no_hard_error (fd_in st2)"
    and d2: "delivers (fd_in st2) = short"
    by auto
  let ?st3 = "st2\<lparr>buffer := memset (buffer st2) (CHR 0x00) (reply_len + 1)\<rparr>"
  have "serialice_read ?st3 reply_len = None"
    using ok2 d2 short by (intro serialice_read_starved) simp_all
  with wait wr show ?thesis
    by (simp add: serialice_command_def and_then_def Let_def)
qed

lemma serialice_read_exact:
  assumes "no_hard_error (fd_in st)" and "serialice_read st n = Some (got, st')"
  shows "length got = n"
proof (cases "n \<le> length (delivers (fd_in st))")
  case True
  from serialice_read_enough [OF assms(1) True] assms(2) True show ?thesis by auto
next
  case False
  then have "serialice_read st n = None"
    using assms(1) by (intro serialice_read_starved) simp_all
  with assms(2) show ?thesis by simp
qed


text \<open>
  C3 (as the code has it). \<^verbatim>\<open>serialice_read\<close> is a blocking read of exactly
  \<^verbatim>\<open>nbyte\<close> bytes: it retries at every time-out and returns fewer bytes only when a
  \<^verbatim>\<open>read\<close> fails with a hard error. In a command exchange in which the prompt was seen
  and the command written, if the read of the reply returns a number of bytes other than
  \<^verbatim>\<open>reply_len\<close>, then a \<^verbatim>\<open>read\<close> failed with a hard error and
  \<^verbatim>\<open>serialice_command\<close> never returns to its caller, so no result is made of the
  partial reply; it prints the two counts and the partial reply and calls \<^verbatim>\<open>exit(1)\<close>,
  unless the first byte read is a carriage return and the one-byte read that compensates
  for it never returns (the terminal is configured with \<^verbatim>\<open>IGNCR\<close>, and a line without
  carriage returns gives no such first byte). A reply that the target itself cuts short is
  not diagnosed: while the line stays silent \<^verbatim>\<open>serialice_command\<close> waits for ever, and
  whatever \<^verbatim>\<open>reply_len\<close> bytes follow the echo are taken as the reply.
\<close>

theorem C3_reply_length_check:
  "(serialice_wait_prompt st = Some (Returns r st1)
      \<and> serialice_write st1 cmd = Some st2
      \<and> serialice_read (st2\<lparr>buffer := memset (buffer st2) (CHR 0x00) (reply_len + 1)\<rparr>)
            reply_len = Some (got, st3)
      \<and> length got \<noteq> reply_len \<longrightarrow>
        \<not> no_hard_error (fd_in st2)
      \<and> (\<forall>v st'. serialice_command cmd reply_len st \<noteq> Some (Returns v st'))
      \<and> (store_at (buffer st3) 0 got ! 0 \<noteq> CHR 0x0D \<longrightarrow>
           serialice_command cmd reply_len st =
             Some (Exits 1 (st3\<lparr>buffer := store_at (buffer st3) 0 got,
                printed := printed st3 @ [Not_answered (int (length got)) (int reply_len)
                  (cstring (store_at (buffer st3) 0 got))]\<rparr>)))
      \<and> (CHR 0x0D \<notin> set (delivers (fd_in st)) \<longrightarrow>
           store_at (buffer st3) 0 got ! 0 \<noteq> CHR 0x0D)
      \<and> (\<forall>got' st4.
            store_at (buffer st3) 0 got ! 0 = CHR 0x0D
            \<and> serialice_read
                 (st3\<lparr>buffer := memmove_down (store_at (buffer st3) 0 got) reply_len\<rparr>) 1
               = Some (got', st4) \<longrightarrow>
            serialice_command cmd reply_len st =
              Some (Exits 1 (st4\<lparr>buffer := store_at (buffer st4) (reply_len - 1) got',
                 printed := printed st4 @ [Not_answered (int (length got)) (int reply_len)
                   (cstring (store_at (buffer st4) (reply_len - 1) got'))]\<rparr>))))
   \<and> (no_hard_error (fd_in st) \<and> delivers (fd_in st) = prompt @ e @ short
      \<and> length e = length cmd \<and> length short < reply_len \<longrightarrow>
        serialice_command cmd reply_len st = None)
   \<and> (no_hard_error (fd_in st) \<and> delivers (fd_in st) = prompt @ e @ reply @ rest
      \<and> length e = length cmd \<and> reply \<noteq> [] \<and> hd reply \<noteq> CHR 0x0D \<longrightarrow>
        (\<exists>st'. serialice_command cmd (length reply) st = Some (Returns () st')
           \<and> buffer st' = reply @ CHR 0x00 # drop (length reply + 1) (buffer st)
           \<and> delivers (fd_in st') = rest))"
proof (intro conjI impI allI)
  assume h: "serialice_wait_prompt st = Some (Returns r st1)
      \<and> serialice_write st1 cmd = Some st2
      \<and> serialice_read (st2\<lparr>buffer := memset (buffer st2) (CHR 0x00) (reply_len + 1)\<rparr>)
            reply_len = Some (got, st3)
      \<and> length got \<noteq> reply_len"
  show "\<not> no_hard_error (fd_in st2)"
    using h serialice_read_exact
      [of "st2\<lparr>buffer := memset (buffer st2) (CHR 0x00) (reply_len + 1)\<rparr>" reply_len got st3]
    by auto
next
  fix v st'
  assume h: "serialice_wait_prompt st = Some (Returns r st1)
      \<and> serialice_write st1 cmd = Some st2
      \<and> serialice_read (st2\<lparr>buffer := memset (buffer st2) (CHR 0x00) (reply_len + 1)\<rparr>)
            reply_len = Some (got, st3)
      \<and> length got \<noteq> reply_len"
  then show "serialice_command cmd reply_len st \<noteq> Some (Returns v st')"
    by (auto simp: serialice_command_def and_then_def Let_def split: option.splits)
next
  assume h: "serialice_wait_prompt st = Some (Returns r st1)
      \<and> serialice_write st1 cmd = Some st2
      \<and> serialice_read (st2\<lparr>buffer := memset (buffer st2) (CHR 0x00) (reply_len + 1)\<rparr>)
            reply_len = Some (got, st3)
      \<and> length got \<noteq> reply_len"
    and "store_at (buffer st3) 0 got ! 0 \<noteq> CHR 0x0D"
  then show "serialice_command cmd reply_len st =
             Some (Exits 1 (st3\<lparr>buffer := store_at (buffer st3) 0 got,
                printed := printed st3 @ [Not_answered (int (length got)) (int reply_len)
                  (cstring (store_at (buffer st3) 0 got))]\<rparr>))"
    by (simp add: serialice_command_def and_then_def Let_def)
next
  assume h: "serialice_wait_prompt st = Some (Returns r st1)
      \<and> serialice_write st1 cmd = Some st2
      \<and> serialice_read (st2\<lparr>buffer := memset (buffer st2) (CHR 0x00) (reply_len + 1)\<rparr>)
            reply_len = Some (got, st3)
      \<and> length got \<noteq> reply_len"
    and cr: "CHR 0x0D \<notin> set (delivers (fd_in st))"
  let ?st2' = "st2\<lparr>buffer := memset (buffer st2) (CHR 0x00) (reply_len + 1)\<rparr>"
  from h have a: "serialice_wait_prompt st = Some (Returns r st1)"
    and b: "serialice_write st1 cmd = Some st2"
    and c: "serialice_read ?st2' reply_len = Some (got, st3)"
    by simp_all
  from serialice_wait_prompt_bytes [OF a] serialice_write_bytes [OF b]
    serialice_read_bytes [OF c] cr
  have nocr: "CHR 0x0D \<notin> set got" and buf3: "buffer st3 = buffer ?st2'"
    by auto
  show "store_at (buffer st3) 0 got ! 0 \<noteq> CHR 0x0D"
  proof (cases got)
    case Nil
    then show ?thesis using buf3 by (simp add: store_at_def memset_def)
  next
    case (Cons g gs)
    with nocr show ?thesis by (auto simp: store_at_def)
  qed
next
  fix got' st4
  assume h: "serialice_wait_prompt st = Some (Returns r st1)
      \<and> serialice_write st1 cmd = Some st2
      \<and> serialice_read (st2\<lparr>buffer := memset (buffer st2) (CHR 0x00) (reply_len + 1)\<rparr>)
            reply_len = Some (got, st3)
      \<and> length got \<noteq> reply_len"
    and "store_at (buffer st3) 0 got ! 0 = CHR 0x0D
            \<and> serialice_read
                 (st3\<lparr>buffer := memmove_down (store_at (buffer st3) 0 got) reply_len\<rparr>) 1
               = Some (got', st4)"
  then show "serialice_command cmd reply_len st =
              Some (Exits 1 (st4\<lparr>buffer := store_at (buffer st4) (reply_len - 1) got',
                 printed := printed st4 @ [Not_answered (int (length got)) (int reply_len)
                   (cstring (store_at (buffer st4) (reply_len - 1) got'))]\<rparr>))"
    by (simp add: serialice_command_def and_then_def Let_def)
next
  assume "no_hard_error (fd_in st) \<and> delivers (fd_in st) = prompt @ e @ short
      \<and> length e = length cmd \<and> length short < reply_len"
  then show "serialice_command cmd reply_len st = None"
    using serialice_command_starved by blast
next
  assume "no_hard_error (fd_in st) \<and> delivers (fd_in st) = prompt @ e @ reply @ rest
      \<and> length e = length cmd \<and> reply \<noteq> [] \<and> hd reply \<noteq> CHR 0x0D"
  then show "\<exists>st'. serialice_command cmd (length reply) st = Some (Returns () st')
           \<and> buffer st' = reply @ CHR 0x00 # drop (length reply + 1) (buffer st)
           \<and> delivers (fd_in st') = rest"
    using serialice_command_answered [of st e reply rest cmd] by blast
qed

theorem C3_reply_length_check_witness:
  "serialice_command ''*x'' 3
     (initial_state [Data (prompt @ ''*x'' @ [CHR 0x0A]), Fail EIO, Data ''7f'']
        (CHR ''?'', CHR ''?'', CHR ''?''))
   = Some (Exits 1
       \<lparr>fd_in = [Data ''7f''], fd_out = ''*x'',
        buffer = CHR 0x0A # replicate 3 (CHR 0x00) @ replicate (BUFFER_SIZE - 4) (CHR 0x00),
        command = [], handshake_mode = False,
        printed = [Not_answered 1 3 [CHR 0x0A]], stack = (CHR ''?'', CHR ''?'', CHR ''?'')\<rparr>)
   \<and> serialice_command ''*x'' 3
     (initial_state [Data (prompt @ ''*x'' @ [CHR 0x0A])] (CHR ''?'', CHR ''?'', CHR ''?''))
   = None"
proof -
  let ?junk = "(CHR ''?'', CHR ''?'', CHR ''?'')"
  let ?st = "initial_state [Data (prompt @ ''*x'' @ [CHR 0x0A]), Fail EIO, Data ''7f''] ?junk"
  let ?st1 = "initial_state [Data (''*x'' @ [CHR 0x0A]), Fail EIO, Data ''7f''] ?junk"
  let ?st2 = "?st1\<lparr>fd_in := [Data [CHR 0x0A], Fail EIO, Data ''7f''], fd_out := ''*x''\<rparr>"
  let ?st3 = "?st2\<lparr>buffer := memset (buffer ?st2) (CHR 0x00) (3 + 1), fd_in := [Data ''7f'']\<rparr>"
  let ?sil = "initial_state [Data (prompt @ ''*x'' @ [CHR 0x0A])] ?junk"
  have cr: "CHR 0x0D \<notin> set (delivers (fd_in ?st))"
    by (simp add: initial_state_def prompt_def)
  have a: "serialice_wait_prompt ?st = Some (Returns 0 ?st1)"
    by (simp add: serialice_wait_prompt_def serialice_read_def serialice_read_loop.simps
        wait_prompt_loop.simps initial_state_def store_at_def prompt_def)
  have b: "serialice_write ?st1 ''*x'' = Some ?st2"
    by (simp add: read_echo.simps initial_state_def)
  have c: "serialice_read (?st2\<lparr>buffer := memset (buffer ?st2) (CHR 0x00) (3 + 1)\<rparr>) 3
      = Some ([CHR 0x0A], ?st3)"
    by (simp add: serialice_read_def serialice_read_loop.simps initial_state_def)
  have d: "length [CHR 0x0A] \<noteq> (3 :: nat)" by simp
  have ok: "no_hard_error (fd_in ?sil)"
    and s: "delivers (fd_in ?sil) = prompt @ ''*x'' @ [CHR 0x0A]"
    by (simp_all add: initial_state_def)
  from C3_reply_length_check [of ?st 0 ?st1 "''*x''" ?st2 3 "[CHR 0x0A]" ?st3] a b c d cr
  have "serialice_command ''*x'' 3 ?st =
      Some (Exits 1 (?st3\<lparr>buffer := store_at (buffer ?st3) 0 [CHR 0x0A],
         printed := printed ?st3 @ [Not_answered (int (length [CHR 0x0A])) (int 3)
           (cstring (store_at (buffer ?st3) 0 [CHR 0x0A]))]\<rparr>))"
    by blast
  moreover from C3_reply_length_check [of ?sil _ _ "''*x''" _ 3 _ _ "''*x''" "[CHR 0x0A]"] ok s
  have "serialice_command ''*x'' 3 ?sil = None"
    by simp
  ultimately show ?thesis
    by (simp add: initial_state_def store_at_def memset_def cstring_def BUFFER_SIZE_def)
qed

text \<open>
  C3 as stated fails for a reply that the target cuts short. A byte load expects three
  bytes and the target sends two, a newline and one digit. When the line then stays
  silent, \<^verbatim>\<open>msg_load\<close> never returns: nothing is printed and \<^verbatim>\<open>exit\<close> is not called.
  When the next prompt follows, its newline is taken as the third byte of the reply and
  \<^verbatim>\<open>msg_load\<close> returns 7 with nothing printed.
\<close>

theorem C3_short_reply_undetected:
  "msg_load 0x80 1
     (initial_state [Data (prompt @ ''*rm00000080.b'' @ [CHR 0x0A, CHR ''7''])]
        (CHR ''?'', CHR ''?'', CHR ''?''))
   = None
   \<and> msg_load 0x80 1
     (initial_state [Data (prompt @ ''*rm00000080.b'' @ [CHR 0x0A, CHR ''7''] @ prompt)]
        (CHR ''?'', CHR ''?'', CHR ''?''))
   = Some (Returns 7
       \<lparr>fd_in = [Data ''> ''], fd_out = ''*rm00000080.b'',
        buffer = [CHR 0x0A, CHR ''7'', CHR 0x0A, CHR 0x00]
                  @ replicate (BUFFER_SIZE - 4) (CHR 0x00),
        command = ''*rm00000080.b'', handshake_mode = False,
        printed = [], stack = (CHR ''?'', CHR ''?'', CHR ''?'')\<rparr>)"
proof (intro conjI)
  let ?junk = "(CHR ''?'', CHR ''?'', CHR ''?'')"
  have hex: "printf_0x 8 128 = ''00000080''" by code_simp
  let ?sil = "(initial_state [Data (prompt @ ''*rm00000080.b'' @ [CHR 0x0A, CHR ''7''])] ?junk)
      \<lparr>command := ''*rm00000080.b''\<rparr>"
  have "serialice_command ''*rm00000080.b'' 3 ?sil = None"
    by (rule serialice_command_starved [where e = "''*rm00000080.b''"
          and short = "[CHR 0x0A, CHR ''7'']"])
       (simp_all add: initial_state_def)
  then show "msg_load 0x80 1
     (initial_state [Data (prompt @ ''*rm00000080.b'' @ [CHR 0x0A, CHR ''7''])] ?junk) = None"
    by (simp add: msg_load_def hex and_then_def)
next
  let ?junk = "(CHR ''?'', CHR ''?'', CHR ''?'')"
  have hex: "printf_0x 8 128 = ''00000080''" by code_simp
  show "msg_load 0x80 1
     (initial_state [Data (prompt @ ''*rm00000080.b'' @ [CHR 0x0A, CHR ''7''] @ prompt)] ?junk)
   = Some (Returns 7
       \<lparr>fd_in = [Data ''> ''], fd_out = ''*rm00000080.b'',
        buffer = [CHR 0x0A, CHR ''7'', CHR 0x0A, CHR 0x00]
                  @ replicate (BUFFER_SIZE - 4) (CHR 0x00),
        command = ''*rm00000080.b'', handshake_mode = False,
        printed = [], stack = ?junk\<rparr>)"
    by (simp add: msg_load_def hex and_then_def serialice_command_def
        serialice_wait_prompt_def serialice_read_def serialice_read_loop.simps
        wait_prompt_loop.simps read_echo.simps initial_state_def store_at_def memset_def
        prompt_def reply_value_def cstring_def strtoul_def isspace_def digit_val_def
        BUFFER_SIZE_def)
qed

text \<open>
  C7 fails on the code. \<^verbatim>\<open>serialice_read\<close> leaves its loop on a hard error and
  returns the number of bytes read so far, never -1, so the test \<^verbatim>\<open>l == -1\<close> of its
  callers cannot hold. Here the first \<^verbatim>\<open>read\<close> of \<^verbatim>\<open>serialice_wait_prompt\<close> fails
  with \<^verbatim>\<open>EIO\<close>: \<^verbatim>\<open>serialice_read\<close> returns 0 bytes, and
  \<^verbatim>\<open>serialice_wait_prompt\<close> goes on with the indeterminate contents of its buffer. It
  returns 0 as soon as a prompt arrives, or at once when the indeterminate bytes happen to
  be those of a prompt, and it waits for ever when the line stays silent; in no case does
  it print a diagnosis or call \<^verbatim>\<open>exit\<close>.
\<close>

theorem C7_hard_error_not_fatal:
  "serialice_read (initial_state [Fail EIO, Data (prompt @ ''x'')]
       (CHR ''?'', CHR ''?'', CHR ''?'')) 3
     = Some ([], initial_state [Data (prompt @ ''x'')] (CHR ''?'', CHR ''?'', CHR ''?''))
   \<and> serialice_wait_prompt (initial_state [Fail EIO, Data (prompt @ ''x'')]
       (CHR ''?'', CHR ''?'', CHR ''?''))
     = Some (Returns 0 (initial_state [Data ''x''] (CHR ''?'', CHR ''?'', CHR ''?'')))
   \<and> serialice_wait_prompt (initial_state [Fail EIO] (CHR 0x0A, CHR ''>'', CHR '' ''))
     = Some (Returns 0 (initial_state [] (CHR 0x0A, CHR ''>'', CHR '' '')))
   \<and> serialice_wait_prompt (initial_state [Fail EIO] (CHR ''?'', CHR ''?'', CHR ''?''))
     = None"
proof (intro conjI)
  let ?junk = "(CHR ''?'', CHR ''?'', CHR ''?'')"
  show "serialice_read (initial_state [Fail EIO, Data (prompt @ ''x'')] ?junk) 3
     = Some ([], initial_state [Data (prompt @ ''x'')] ?junk)"
    by (simp add: serialice_read_def serialice_read_loop.simps initial_state_def)
  show "serialice_wait_prompt (initial_state [Fail EIO, Data (prompt @ ''x'')] ?junk)
     = Some (Returns 0 (initial_state [Data ''x''] ?junk))"
    by (simp add: serialice_wait_prompt_def serialice_read_def serialice_read_loop.simps
        wait_prompt_loop.simps initial_state_def store_at_def prompt_def)
  show "serialice_wait_prompt (initial_state [Fail EIO] (CHR 0x0A, CHR ''>'', CHR '' ''))
     = Some (Returns 0 (initial_state [] (CHR 0x0A, CHR ''>'', CHR '' '')))"
    by (simp add: serialice_wait_prompt_def serialice_read_def serialice_read_loop.simps
        wait_prompt_loop.simps initial_state_def store_at_def prompt_def)
  have "wait_prompt_loop ''???'' (initial_state [] ?junk) = None"
    by (rule wait_prompt_loop_never [where bs = "[]"])
      (simp_all add: initial_state_def ends_with_prompt_def prompt_def)
  then show "serialice_wait_prompt (initial_state [Fail EIO] ?junk) = None"
    by (simp add: serialice_wait_prompt_def serialice_read_def serialice_read_loop.simps
        initial_state_def store_at_def)
qed

text \<open>
  C8. For a size other than 1, 2, 4, \<^verbatim>\<open>msg_io_read\<close> prints a warning and returns -1
  (all bits set); for a size other than 1, 2, 4, 8, \<^verbatim>\<open>msg_load\<close> prints a warning
  and returns 0. Nothing else changes: no prompt is waited for, no byte is written to the
  line and none is read from it.
\<close>

theorem C8_unsupported_size:
  "(sz \<notin> {1, 2, 4} \<longrightarrow>
      msg_io_read port sz st =
        Some (Returns (- 1)
          (st\<lparr>printed := printed st @ [Unknown_read_access_size sz (ucast port)]\<rparr>)))
   \<and> (sz \<notin> {1, 2, 4, 8} \<longrightarrow>
      msg_load addr sz st =
        Some (Returns 0 (st\<lparr>printed := printed st @ [Unknown_read_access_size sz addr]\<rparr>)))"
  by (simp add: msg_io_read_def msg_load_def)

theorem C8_unsupported_size_witness:
  "msg_io_read 0x80 3 (initial_state [Data prompt] (CHR ''?'', CHR ''?'', CHR ''?''))
     = Some (Returns 0xffffffffffffffff
         ((initial_state [Data prompt] (CHR ''?'', CHR ''?'', CHR ''?''))
            \<lparr>printed := [Unknown_read_access_size 3 0x80]\<rparr>))
   \<and> msg_load 0x1000 16 (initial_state [Data prompt] (CHR ''?'', CHR ''?'', CHR ''?''))
     = Some (Returns 0
         ((initial_state [Data prompt] (CHR ''?'', CHR ''?'', CHR ''?''))
            \<lparr>printed := [Unknown_read_access_size 16 0x1000]\<rparr>))"
  using C8_unsupported_size [of 3 "0x80" "initial_state [Data prompt] (CHR ''?'', CHR ''?'', CHR ''?'')"]
    C8_unsupported_size [of 16 _ "initial_state [Data prompt] (CHR ''?'', CHR ''?'', CHR ''?'')" "0x1000"]
  by (simp add: initial_state_def)

end
